theory Spec2Isabelle
  imports Main "HOL-Library.Word" "HOL-Library.Log_Nat"
begin

section \<open>Events and constants\<close>

text \<open>
  \<^verbatim>\<open>struct input_event\<close> of the Linux input subsystem: a timestamp the daemon never
  looks at, an unsigned 16-bit type, an unsigned 16-bit code and a signed 32-bit value.
\<close>

record input_event =
  ev_time :: "64 word \<times> 64 word"
  ev_type :: "16 word"
  ev_code :: "16 word"
  ev_value :: "32 word"

text \<open>Event types and codes of \<^verbatim>\<open>linux/input-event-codes.h\<close>, with the kernel's values.\<close>

definition EV_SYN :: "16 word" where "EV_SYN = 0x00"
definition EV_KEY :: "16 word" where "EV_KEY = 0x01"
definition EV_REL :: "16 word" where "EV_REL = 0x02"
definition EV_MSC :: "16 word" where "EV_MSC = 0x04"

definition BTN_SIDE :: "16 word" where "BTN_SIDE = 0x113"
definition BTN_EXTRA :: "16 word" where "BTN_EXTRA = 0x114"
definition KEY_LEFTSHIFT :: "16 word" where "KEY_LEFTSHIFT = 42"
definition KEY_LEFTCTRL :: "16 word" where "KEY_LEFTCTRL = 29"
definition REL_X :: "16 word" where "REL_X = 0x00"
definition REL_Y :: "16 word" where "REL_Y = 0x01"
definition MSC_SCAN :: "16 word" where "MSC_SCAN = 0x04"

text \<open>The magic scan codes of \<^verbatim>\<open>g502d.c\<close>.\<close>

definition SCAN_BTN_SIDE :: "32 word" where "SCAN_BTN_SIDE = 0x90004"
definition SCAN_BTN_EXTRA :: "32 word" where "SCAN_BTN_EXTRA = 0x90005"
definition SCAN_KEY_SHIFT :: "32 word" where "SCAN_KEY_SHIFT = 0x70004"
definition SCAN_KEY_CTRL :: "32 word" where "SCAN_KEY_CTRL = 0x70005"

text \<open>\<^verbatim>\<open>config.h\<close>: \<^verbatim>\<open>#define DPI_SCALE 0.5\<close>, a \<^verbatim>\<open>double\<close> literal.\<close>

definition DPI_SCALE :: rat where "DPI_SCALE = 1 / 2"

section \<open>Binary floating point\<close>

text \<open>
  The accumulators are C \<^verbatim>\<open>float\<close>s and the product with \<^verbatim>\<open>DPI_SCALE\<close> is a
  \<^verbatim>\<open>double\<close>. A finite floating-point value is modelled by the rational it denotes, and
  every operation of the source rounds its exact result to the format, to nearest with ties
  to even (the default rounding mode). \<open>fp_round p k\<close> rounds to a format with \<open>p\<close>
  significand bits whose smallest subnormal is \<open>2\<^sup>-\<^sup>k\<close>: binary32 is \<open>p = 24, k = 149\<close>,
  binary64 is \<open>p = 53, k = 1074\<close>. Overflow to infinity is not modelled; the values that
  occur here stay below \<open>2\<^sup>3\<^sup>2\<close> in magnitude.
\<close>

definition round_half_even :: "rat \<Rightarrow> int" where
  "round_half_even r =
     (let f = \<lfloor>r\<rfloor>; d = r - of_int f
      in if d < 1 / 2 then f else if 1 / 2 < d then f + 1 else if even f then f else f + 1)"

definition fp_round :: "nat \<Rightarrow> nat \<Rightarrow> rat \<Rightarrow> rat" where
  "fp_round p k x =
     (let y = \<bar>x\<bar> * 2 ^ k;
          e = bitlen \<lfloor>y\<rfloor> - int p;
          u = (if e \<le> 0 then 1 else 2 ^ nat e)
      in sgn x * of_int (round_half_even (y / u)) * u / 2 ^ k)"

definition to_float :: "rat \<Rightarrow> rat" where
  "to_float = fp_round 24 149"

definition to_double :: "rat \<Rightarrow> rat" where
  "to_double = fp_round 53 1074"

text \<open>\<^verbatim>\<open>roundf\<close>: to the nearest integer, halfway cases away from zero.\<close>

definition roundf :: "rat \<Rightarrow> int" where
  "roundf x = (if 0 \<le> x then \<lfloor>x + 1 / 2\<rfloor> else - \<lfloor>- x + 1 / 2\<rfloor>)"

text \<open>
  The body shared by the \<^verbatim>\<open>REL_X\<close> and \<^verbatim>\<open>REL_Y\<close> branches:
  \<^verbatim>\<open>accum += ev.value * DPI_SCALE; int int_move = (int)roundf(accum);
  accum -= int_move; ev.value = int_move;\<close>
  The product and the sum are computed in \<^verbatim>\<open>double\<close> and the sum is stored into the
  \<^verbatim>\<open>float\<close> accumulator; \<^verbatim>\<open>roundf\<close> yields a whole number, which the cast stores
  in a 32-bit \<^verbatim>\<open>int\<close>; the subtraction converts \<^verbatim>\<open>int_move\<close> back to \<^verbatim>\<open>float\<close>.
  The result is the new accumulator and the new \<^verbatim>\<open>ev.value\<close>.
\<close>

definition scale_axis :: "rat \<Rightarrow> 32 word \<Rightarrow> rat \<times> 32 word" where
  "scale_axis accum v =
     (let prod = to_double (to_double (of_int (sint v)) * DPI_SCALE);
          acc1 = to_float (to_double (to_double accum + prod));
          int_move = (word_of_int (roundf acc1) :: 32 word);
          acc2 = to_float (acc1 - to_float (of_int (sint int_move)))
      in (acc2, int_move))"

section \<open>The keyboard event ring buffer\<close>

text \<open>
  The globals of \<^verbatim>\<open>g502d.c\<close>: the ring \<^verbatim>\<open>kb_event_buffer\<close> with its write index
  \<^verbatim>\<open>head\<close> and read index \<^verbatim>\<open>tail\<close>, and the counting semaphore \<^verbatim>\<open>kb_event_sem\<close>.
  The two virtual devices are part of the same state: \<open>v_g502_out\<close> and \<open>v_kb_out\<close> are
  the events handed to \<^verbatim>\<open>write\<close> on \<^verbatim>\<open>v_g502_fd\<close> and \<^verbatim>\<open>v_kb_fd\<close>, oldest first.
  A \<^verbatim>\<open>write\<close> that returns short is only logged by the source, so the lists record the
  calls. Each function below is one call of the source function, run to completion; the
  two calls that another thread can interrupt between their steps are split further below.
\<close>

record world =
  kb_event_buffer :: "nat \<Rightarrow> input_event"
  head :: nat
  tail :: nat
  kb_event_sem :: nat
  v_g502_out :: "input_event list"
  v_kb_out :: "input_event list"

definition EVENT_BUFFER_SIZE :: nat where
  "EVENT_BUFFER_SIZE = 2 ^ 18"

text \<open>The largest value of a POSIX semaphore on Linux (\<^verbatim>\<open>INT_MAX\<close>).\<close>

definition SEM_VALUE_MAX :: nat where
  "SEM_VALUE_MAX = 2147483647"

text \<open>\<^verbatim>\<open>exit(n)\<close> and \<^verbatim>\<open>return n\<close> from \<^verbatim>\<open>main\<close> end the process with status \<open>n\<close>.\<close>

datatype halt = ProcessExit int

text \<open>\<^verbatim>\<open>sem_post\<close> fails (and leaves the semaphore alone) when the value is at its maximum.\<close>

definition sem_post :: "nat \<Rightarrow> nat option" where
  "sem_post s = (if s < SEM_VALUE_MAX then Some (s + 1) else None)"

definition sem_trywait :: "nat \<Rightarrow> nat" where
  "sem_trywait s = s - 1"

text \<open>The loop of \<^verbatim>\<open>clear_keyboard_buffer\<close> that drains the semaphore.\<close>

function sem_drain :: "nat \<Rightarrow> nat" where
  "sem_drain sem_value = (if sem_value > 0 then sem_drain (sem_trywait sem_value) else sem_value)"
  by pat_completeness auto
termination
  by (relation "measure id") (auto simp: sem_trywait_def)

declare sem_drain.simps [simp del]

definition clear_keyboard_buffer :: "world \<Rightarrow> world" where
  "clear_keyboard_buffer w = w\<lparr>head := tail w, kb_event_sem := sem_drain (kb_event_sem w)\<rparr>"

definition send_input_event_to_keyboard :: "input_event \<Rightarrow> world \<Rightarrow> halt + world" where
  "send_input_event_to_keyboard ev w =
     (let next_head = (head w + 1) mod EVENT_BUFFER_SIZE
      in if next_head = tail w then Inl (ProcessExit 1)
         else
           (let w1 = w\<lparr>kb_event_buffer := (kb_event_buffer w)(head w := ev), head := next_head\<rparr>
            in case sem_post (kb_event_sem w1) of
                 Some s \<Rightarrow> Inr (w1\<lparr>kb_event_sem := s\<rparr>)
               | None \<Rightarrow> Inr w1))"

text \<open>
  One iteration of the loop of \<^verbatim>\<open>keyboard_process_o\<close>. \<^verbatim>\<open>sem_wait\<close> blocks while the
  semaphore is zero: the iteration has no result then (\<open>None\<close>). Otherwise it takes the
  event at \<^verbatim>\<open>tail\<close>, advances \<^verbatim>\<open>tail\<close> and writes the event to the virtual keyboard.
  A \<^verbatim>\<open>sem_wait\<close> that fails is logged and the loop waits again, with nothing changed.
\<close>

definition keyboard_process_o_iter :: "world \<Rightarrow> world option" where
  "keyboard_process_o_iter w =
     (if kb_event_sem w = 0 then None
      else
        (let current_tail = tail w;
             ev = kb_event_buffer w current_tail
         in Some (w\<lparr>kb_event_sem := kb_event_sem w - 1,
                    tail := (current_tail + 1) mod EVENT_BUFFER_SIZE,
                    v_kb_out := v_kb_out w @ [ev]\<rparr>)))"

text \<open>
  The source does not run these calls indivisibly. \<^verbatim>\<open>keyboard_process_o\<close> takes no
  mutex: between its \<^verbatim>\<open>sem_wait\<close> and its read of \<^verbatim>\<open>tail\<close> another thread may run.
  The iteration is therefore also given in its two parts, the wait and the take, whose
  composition is \<open>keyboard_process_o_iter\<close>. Likewise \<^verbatim>\<open>send_input_event_to_keyboard\<close>
  posts the semaphore only after it has released the mutex: \<open>send_locked\<close> is the part
  under the mutex and \<open>send_post\<close> the part after it.
\<close>

definition sem_wait :: "nat \<Rightarrow> nat option" where
  "sem_wait s = (if s = 0 then None else Some (s - 1))"

definition keyboard_process_o_wait :: "world \<Rightarrow> world option" where
  "keyboard_process_o_wait w =
     (case sem_wait (kb_event_sem w) of
        None \<Rightarrow> None
      | Some s \<Rightarrow> Some (w\<lparr>kb_event_sem := s\<rparr>))"

definition keyboard_process_o_take :: "world \<Rightarrow> world" where
  "keyboard_process_o_take w =
     (let current_tail = tail w;
          ev = kb_event_buffer w current_tail
      in w\<lparr>tail := (current_tail + 1) mod EVENT_BUFFER_SIZE,
            v_kb_out := v_kb_out w @ [ev]\<rparr>)"

definition send_locked :: "input_event \<Rightarrow> world \<Rightarrow> halt + world" where
  "send_locked ev w =
     (let next_head = (head w + 1) mod EVENT_BUFFER_SIZE
      in if next_head = tail w then Inl (ProcessExit 1)
         else Inr (w\<lparr>kb_event_buffer := (kb_event_buffer w)(head w := ev), head := next_head\<rparr>))"

definition send_post :: "world \<Rightarrow> world" where
  "send_post w =
     (case sem_post (kb_event_sem w) of
        Some s \<Rightarrow> w\<lparr>kb_event_sem := s\<rparr>
      | None \<Rightarrow> w)"

definition write_g502 :: "input_event \<Rightarrow> world \<Rightarrow> world" where
  "write_g502 ev w = w\<lparr>v_g502_out := v_g502_out w @ [ev]\<rparr>"

section \<open>The mouse thread\<close>

record mouse_locals =
  mouse_fd :: int
  accum_x :: rat
  accum_y :: rat
  consecutive_failures :: nat

text \<open>The \<^verbatim>\<open>switch (ev.type)\<close> of \<^verbatim>\<open>mouse_thread_io_func\<close>.\<close>

definition mouse_handle_event ::
  "input_event \<Rightarrow> mouse_locals \<times> world \<Rightarrow> halt + mouse_locals \<times> world" where
  "mouse_handle_event ev s =
     (case s of (l, w) \<Rightarrow>
        if ev_type ev = EV_KEY then
          (if ev_code ev = BTN_SIDE \<or> ev_code ev = BTN_EXTRA then
             (let ev1 = (if ev_code ev = BTN_SIDE then ev\<lparr>ev_code := KEY_LEFTSHIFT\<rparr>
                         else if ev_code ev = BTN_EXTRA then ev\<lparr>ev_code := KEY_LEFTCTRL\<rparr>
                         else ev)
              in case send_input_event_to_keyboard ev1 w of
                   Inl h \<Rightarrow> Inl h
                 | Inr w1 \<Rightarrow> Inr (l, w1))
           else Inr (l, write_g502 ev w))
        else if ev_type ev = EV_REL then
          (if ev_code ev = REL_X then
             (case scale_axis (accum_x l) (ev_value ev) of
                (a, int_move) \<Rightarrow>
                  Inr (l\<lparr>accum_x := a\<rparr>, write_g502 (ev\<lparr>ev_value := int_move\<rparr>) w))
           else if ev_code ev = REL_Y then
             (case scale_axis (accum_y l) (ev_value ev) of
                (a, int_move) \<Rightarrow>
                  Inr (l\<lparr>accum_y := a\<rparr>, write_g502 (ev\<lparr>ev_value := int_move\<rparr>) w))
           else Inr (l, write_g502 ev w))
        else if ev_type ev = EV_MSC then
          (if ev_code ev = MSC_SCAN then
             (if ev_value ev = SCAN_BTN_SIDE then
                (case send_input_event_to_keyboard (ev\<lparr>ev_value := SCAN_KEY_SHIFT\<rparr>) w of
                   Inl h \<Rightarrow> Inl h
                 | Inr w1 \<Rightarrow> Inr (l, w1))
              else if ev_value ev = SCAN_BTN_EXTRA then
                (case send_input_event_to_keyboard (ev\<lparr>ev_value := SCAN_KEY_CTRL\<rparr>) w of
                   Inl h \<Rightarrow> Inl h
                 | Inr w1 \<Rightarrow> Inr (l, w1))
              else Inr (l, write_g502 ev w))
           else Inr (l, write_g502 ev w))
        else if ev_type ev = EV_SYN then
          (case send_input_event_to_keyboard ev w of
             Inl h \<Rightarrow> Inl h
           | Inr w1 \<Rightarrow> Inr (l, write_g502 ev w1))
        else Inr (l, write_g502 ev w))"

section \<open>Devices\<close>

text \<open>
  What the host answers to one attempt to find, open and grab a device:
  whether \<^verbatim>\<open>find_event_device\<close> returns a path, the result of \<^verbatim>\<open>open\<close> (negative on
  failure), and whether the \<^verbatim>\<open>EVIOCGRAB\<close> request succeeds.
\<close>

record dev_probe =
  dev_found :: bool
  dev_open_fd :: int
  dev_grab_ok :: bool

definition open_and_grab_device :: "dev_probe \<Rightarrow> int" where
  "open_and_grab_device p =
     (let fd = dev_open_fd p
      in if fd < 0 then - 1
         else if \<not> dev_grab_ok p then - 1
         else fd)"

definition find_open_and_grab_device :: "dev_probe \<Rightarrow> int" where
  "find_open_and_grab_device p =
     (if \<not> dev_found p then - 1 else open_and_grab_device p)"

text \<open>
  \<^verbatim>\<open>reopen_device\<close>: the old descriptor is released and closed, and after a second the
  device is looked up again. The result is the new \<^verbatim>\<open>*fd\<close> and the return value.
\<close>

definition reopen_device :: "dev_probe \<Rightarrow> int \<times> int" where
  "reopen_device p =
     (let fd = find_open_and_grab_device p
      in if fd < 0 then (fd, - 1) else (fd, 0))"

text \<open>
  The input of one loop iteration of a reader thread: what \<^verbatim>\<open>read\<close> delivers (\<open>None\<close>
  when it does not return a whole event) and what the host would answer to a reopen.
  A \<^verbatim>\<open>read\<close> on a negative descriptor always fails.
\<close>

record thread_io =
  io_read :: "input_event option"
  io_probe :: dev_probe

text \<open>
  The start of \<^verbatim>\<open>mouse_thread_io_func\<close>, before its loop: \<open>None\<close> is
  \<^verbatim>\<open>pthread_exit(NULL)\<close>.
\<close>

definition mouse_thread_start :: "dev_probe \<Rightarrow> mouse_locals option" where
  "mouse_thread_start p =
     (let fd = find_open_and_grab_device p
      in if fd < 0 then None
         else Some \<lparr>mouse_fd = fd, accum_x = 0, accum_y = 0, consecutive_failures = 0\<rparr>)"

text \<open>One iteration of the \<^verbatim>\<open>while (1)\<close> of \<^verbatim>\<open>mouse_thread_io_func\<close>.\<close>

definition mouse_loop_iter ::
  "thread_io \<Rightarrow> mouse_locals \<times> world \<Rightarrow> halt + mouse_locals \<times> world" where
  "mouse_loop_iter io s =
     (case s of (l, w) \<Rightarrow>
        (case (if mouse_fd l < 0 then None else io_read io) of
           None \<Rightarrow>
             (case reopen_device (io_probe io) of
                (fd, rc) \<Rightarrow>
                  if rc = 0 then
                    Inr (l\<lparr>mouse_fd := fd, consecutive_failures := 0,
                            accum_x := 0, accum_y := 0\<rparr>, w)
                  else
                    Inr (l\<lparr>mouse_fd := fd,
                            consecutive_failures := consecutive_failures l + 1\<rparr>, w))
         | Some ev \<Rightarrow> mouse_handle_event ev (l\<lparr>consecutive_failures := 0\<rparr>, w)))"

section \<open>The keyboard input thread\<close>

record kb_locals =
  kb_fd :: int
  kb_consecutive_failures :: nat

definition keyboard_thread_start :: "dev_probe \<Rightarrow> kb_locals option" where
  "keyboard_thread_start p =
     (let fd = find_open_and_grab_device p
      in if fd < 0 then None
         else Some \<lparr>kb_fd = fd, kb_consecutive_failures = 0\<rparr>)"

text \<open>One iteration of the \<^verbatim>\<open>while (1)\<close> of \<^verbatim>\<open>keyboard_process_i\<close>.\<close>

definition keyboard_loop_iter ::
  "thread_io \<Rightarrow> kb_locals \<times> world \<Rightarrow> halt + kb_locals \<times> world" where
  "keyboard_loop_iter io s =
     (case s of (l, w) \<Rightarrow>
        (case (if kb_fd l < 0 then None else io_read io) of
           None \<Rightarrow>
             (let w1 = clear_keyboard_buffer w
              in case reopen_device (io_probe io) of
                   (fd, rc) \<Rightarrow>
                     if rc = 0 then
                       Inr (l\<lparr>kb_fd := fd, kb_consecutive_failures := 0\<rparr>, w1)
                     else
                       Inr (l\<lparr>kb_fd := fd,
                               kb_consecutive_failures := kb_consecutive_failures l + 1\<rparr>, w1))
         | Some ev \<Rightarrow>
             (case send_input_event_to_keyboard ev w of
                Inl h \<Rightarrow> Inl h
              | Inr w1 \<Rightarrow> Inr (l\<lparr>kb_consecutive_failures := 0\<rparr>, w1))))"

section \<open>The process\<close>

text \<open>
  The running daemon: the locals of the two reader threads (\<open>None\<close> once the thread has
  left through \<^verbatim>\<open>pthread_exit\<close>) and the shared state. The keyboard output thread has
  no exit and no locals.
\<close>

record daemon =
  mouse_thread :: "mouse_locals option"
  kb_input_thread :: "kb_locals option"
  shared :: world

text \<open>
  A schedule is a list of loop iterations, each run to completion. An iteration of a thread
  that has exited, or of the output thread while it waits on the semaphore, changes nothing.
\<close>

datatype action = MouseIter thread_io | KbInputIter thread_io | KbOutputIter

definition daemon_step :: "action \<Rightarrow> daemon \<Rightarrow> halt + daemon" where
  "daemon_step a d =
     (case a of
        MouseIter io \<Rightarrow>
          (case mouse_thread d of
             None \<Rightarrow> Inr d
           | Some l \<Rightarrow>
               (case mouse_loop_iter io (l, shared d) of
                  Inl h \<Rightarrow> Inl h
                | Inr (l1, w1) \<Rightarrow> Inr (d\<lparr>mouse_thread := Some l1, shared := w1\<rparr>)))
      | KbInputIter io \<Rightarrow>
          (case kb_input_thread d of
             None \<Rightarrow> Inr d
           | Some l \<Rightarrow>
               (case keyboard_loop_iter io (l, shared d) of
                  Inl h \<Rightarrow> Inl h
                | Inr (l1, w1) \<Rightarrow> Inr (d\<lparr>kb_input_thread := Some l1, shared := w1\<rparr>)))
      | KbOutputIter \<Rightarrow>
          (case keyboard_process_o_iter (shared d) of
             None \<Rightarrow> Inr d
           | Some w1 \<Rightarrow> Inr (d\<lparr>shared := w1\<rparr>)))"

fun daemon_run :: "action list \<Rightarrow> daemon \<Rightarrow> halt + daemon" where
  "daemon_run [] d = Inr d"
| "daemon_run (a # as) d =
     (case daemon_step a d of
        Inl h \<Rightarrow> Inl h
      | Inr d1 \<Rightarrow> daemon_run as d1)"

text \<open>
  What \<^verbatim>\<open>main\<close> meets at startup, one field per guard of \<^verbatim>\<open>main\<close> in source order,
  and the answers the two reader threads get when they look for their device themselves.
\<close>

record startup =
  main_g502_probe :: dev_probe
  main_kb_probe :: dev_probe
  uinput_g502_open :: bool
  g502_key_bits :: bool
  g502_rel_bits :: bool
  g502_dev_create :: bool
  uinput_kb_open :: bool
  kb_ev_bit :: bool
  kb_msc_bits :: bool
  kb_dev_create :: bool
  sem_init_ok :: bool
  create_kb_output :: bool
  create_kb_input :: bool
  create_mouse_io :: bool
  kb_start_probe :: dev_probe
  mouse_start_probe :: dev_probe

definition zero_event :: input_event where
  "zero_event = \<lparr>ev_time = (0, 0), ev_type = 0, ev_code = 0, ev_value = 0\<rparr>"

text \<open>The globals as the loader and \<^verbatim>\<open>sem_init(&kb_event_sem, 0, 0)\<close> leave them.\<close>

definition initial_world :: world where
  "initial_world =
     \<lparr>kb_event_buffer = (\<lambda>_. zero_event), head = 0, tail = 0, kb_event_sem = 0,
      v_g502_out = [], v_kb_out = []\<rparr>"

text \<open>
  \<^verbatim>\<open>main\<close>: \<open>Inl\<close> is a \<^verbatim>\<open>return\<close> from \<^verbatim>\<open>main\<close>; \<open>Inr\<close> is the daemon once the
  three threads are created and \<^verbatim>\<open>main\<close> waits in \<^verbatim>\<open>pthread_join\<close>. The output thread
  never ends, so the \<^verbatim>\<open>return 0\<close> after the joins is never reached.
\<close>

definition main :: "startup \<Rightarrow> halt + daemon" where
  "main e =
     (if \<not> dev_found (main_g502_probe e) then Inl (ProcessExit 1)
      else if \<not> dev_found (main_kb_probe e) then Inl (ProcessExit 1)
      else if \<not> uinput_g502_open e then Inl (ProcessExit 1)
      else if \<not> g502_key_bits e then Inl (ProcessExit 1)
      else if \<not> g502_rel_bits e then Inl (ProcessExit 1)
      else if \<not> g502_dev_create e then Inl (ProcessExit 1)
      else if \<not> uinput_kb_open e then Inl (ProcessExit 1)
      else if \<not> kb_ev_bit e then Inl (ProcessExit 1)
      else if \<not> kb_msc_bits e then Inl (ProcessExit 1)
      else if \<not> kb_dev_create e then Inl (ProcessExit 1)
      else if \<not> sem_init_ok e then Inl (ProcessExit 1)
      else if \<not> create_kb_output e then Inl (ProcessExit 1)
      else if \<not> create_kb_input e then Inl (ProcessExit 1)
      else if \<not> create_mouse_io e then Inl (ProcessExit 1)
      else Inr \<lparr>mouse_thread = mouse_thread_start (mouse_start_probe e),
                kb_input_thread = keyboard_thread_start (kb_start_probe e),
                shared = initial_world\<rparr>)"

text \<open>All guards of \<^verbatim>\<open>main\<close> pass.\<close>

definition startup_ok :: "startup \<Rightarrow> bool" where
  "startup_ok e \<longleftrightarrow>
     dev_found (main_g502_probe e) \<and> dev_found (main_kb_probe e)
     \<and> uinput_g502_open e \<and> g502_key_bits e \<and> g502_rel_bits e \<and> g502_dev_create e
     \<and> uinput_kb_open e \<and> kb_ev_bit e \<and> kb_msc_bits e \<and> kb_dev_create e
     \<and> sem_init_ok e
     \<and> create_kb_output e \<and> create_kb_input e \<and> create_mouse_io e"

section \<open>The pending events of the ring\<close>

text \<open>
  The ring holds the events between \<^verbatim>\<open>tail\<close> and \<^verbatim>\<open>head\<close>. \<open>pending_count\<close> is their
  number according to the two indices and \<open>pending\<close> lists them from the oldest.
\<close>

definition pending_count :: "world \<Rightarrow> nat" where
  "pending_count w = (head w + EVENT_BUFFER_SIZE - tail w) mod EVENT_BUFFER_SIZE"

definition pending :: "world \<Rightarrow> input_event list" where
  "pending w =
     map (\<lambda>i. kb_event_buffer w ((tail w + i) mod EVENT_BUFFER_SIZE)) [0..<pending_count w]"

text \<open>
  The state the three operations keep: both indices inside the ring and the semaphore
  equal to the number of pending events.
\<close>

definition ring_ok :: "world \<Rightarrow> bool" where
  "ring_ok w \<longleftrightarrow>
     head w < EVENT_BUFFER_SIZE \<and> tail w < EVENT_BUFFER_SIZE \<and> kb_event_sem w = pending_count w"

text \<open>
  Schedules of the two ring operations alone: a push by one of the reader threads and one
  iteration of the output thread, which does nothing while it waits on the semaphore.
\<close>

datatype ring_op = Push input_event | Pop

fun pushed :: "ring_op list \<Rightarrow> input_event list" where
  "pushed [] = []"
| "pushed (Push ev # ops) = ev # pushed ops"
| "pushed (Pop # ops) = pushed ops"

fun transport_run :: "ring_op list \<Rightarrow> world \<Rightarrow> halt + world" where
  "transport_run [] w = Inr w"
| "transport_run (Push ev # ops) w =
     (case send_input_event_to_keyboard ev w of
        Inl h \<Rightarrow> Inl h
      | Inr w1 \<Rightarrow> transport_run ops w1)"
| "transport_run (Pop # ops) w =
     (case keyboard_process_o_iter w of
        None \<Rightarrow> transport_run ops w
      | Some w1 \<Rightarrow> transport_run ops w1)"

text \<open>
  The mouse loop over a run of successfully read events: the \<^verbatim>\<open>switch\<close> applied to each
  event in turn, stopping when the process exits.
\<close>

fun mouse_handle_events ::
  "input_event list \<Rightarrow> mouse_locals \<times> world \<Rightarrow> halt + mouse_locals \<times> world" where
  "mouse_handle_events [] s = Inr s"
| "mouse_handle_events (ev # evs) s =
     (case mouse_handle_event ev s of
        Inl h \<Rightarrow> Inl h
      | Inr s1 \<Rightarrow> mouse_handle_events evs s1)"

text \<open>
  The total motion a list of events carries on one axis: the sum of the values of its
  \<^verbatim>\<open>EV_REL\<close> events with the given code. \<open>accum_ok\<close> are the values an accumulator
  takes between events while the arithmetic is exact.
\<close>

definition axis_sum :: "16 word \<Rightarrow> input_event list \<Rightarrow> int" where
  "axis_sum c evs =
     sum_list (map (\<lambda>ev. sint (ev_value ev))
                   (filter (\<lambda>ev. ev_type ev = EV_REL \<and> ev_code ev = c) evs))"

definition accum_ok :: "rat \<Rightarrow> bool" where
  "accum_ok a \<longleftrightarrow> a = - (1 / 2) \<or> a = 0 \<or> a = 1 / 2"

section \<open>Ring arithmetic\<close>

lemma buffer_size_pos: "0 < EVENT_BUFFER_SIZE" "1 < EVENT_BUFFER_SIZE"
  by (simp_all add: EVENT_BUFFER_SIZE_def)

lemma ring_distance:
  fixes h t n :: nat
  assumes "h < n" "t < n"
  shows "(h + n - t) mod n = (if t \<le> h then h - t else h + n - t)"
proof (cases "t \<le> h")
  case True
  then have "h + n - t = (h - t) + n" by simp
  then have "(h + n - t) mod n = (h - t) mod n" by simp
  with True assms show ?thesis by simp
next
  case False
  with assms show ?thesis by simp
qed

lemma ring_succ:
  fixes h n :: nat
  assumes "h < n"
  shows "Suc h mod n = (if Suc h = n then 0 else Suc h)"
proof (cases "Suc h = n")
  case True
  then show ?thesis by simp
next
  case False
  with assms have "Suc h < n" by simp
  with False show ?thesis by simp
qed

lemma ring_full_iff:
  fixes h t n :: nat
  assumes "h < n" "t < n" "1 < n"
  shows "Suc h mod n = t \<longleftrightarrow> (h + n - t) mod n = n - 1"
  using assms by (auto simp: ring_distance ring_succ split: if_splits)

lemma ring_distance_succ:
  fixes h t n :: nat
  assumes "h < n" "t < n" "Suc h mod n \<noteq> t"
  shows "(Suc h mod n + n - t) mod n = Suc ((h + n - t) mod n)"
proof -
  have "Suc h mod n < n" using assms by simp
  then have "(Suc h mod n + n - t) mod n = (if t \<le> Suc h mod n then Suc h mod n - t else Suc h mod n + n - t)"
    using assms by (simp add: ring_distance)
  then show ?thesis using assms
    by (auto simp: ring_distance ring_succ split: if_splits)
qed

lemma ring_index_head:
  fixes h t n :: nat
  assumes "h < n" "t < n"
  shows "(t + (h + n - t) mod n) mod n = h"
  using assms by (auto simp: ring_distance)

lemma ring_index_inj:
  fixes h t n i :: nat
  assumes "h < n" "t < n" "i < (h + n - t) mod n"
  shows "(t + i) mod n \<noteq> h"
proof (cases "t + i < n")
  case True
  then have "(t + i) mod n = t + i" by simp
  then show ?thesis using assms True by (auto simp: ring_distance split: if_splits)
next
  case False
  then have "(t + i) mod n = (t + i - n) mod n" by (simp add: le_mod_geq)
  moreover have "t + i - n < n" using assms by (auto simp: ring_distance split: if_splits)
  ultimately have "(t + i) mod n = t + i - n" by simp
  then show ?thesis using assms False by (auto simp: ring_distance split: if_splits)
qed

lemma ring_distance_tail_succ:
  fixes h t n :: nat
  assumes "h < n" "t < n" "h \<noteq> t"
  shows "Suc ((h + n - Suc t mod n) mod n) = (h + n - t) mod n"
proof -
  have "Suc t mod n < n" using assms by simp
  then have "(h + n - Suc t mod n) mod n = (if Suc t mod n \<le> h then h - Suc t mod n else h + n - Suc t mod n)"
    using assms by (simp add: ring_distance)
  then show ?thesis using assms
    by (auto simp: ring_distance ring_succ split: if_splits)
qed

lemma ring_index_shift:
  fixes t n i :: nat
  shows "(Suc t mod n + i) mod n = (t + Suc i) mod n"
  by (metis add_Suc add_Suc_right mod_add_left_eq)

section \<open>Push, pop and purge\<close>

lemma ring_ok_sem_bound: "ring_ok w \<Longrightarrow> kb_event_sem w < SEM_VALUE_MAX"
proof -
  assume "ring_ok w"
  then have "kb_event_sem w = pending_count w" by (simp add: ring_ok_def)
  moreover have "pending_count w < EVENT_BUFFER_SIZE"
    using buffer_size_pos(1) by (simp add: pending_count_def)
  ultimately show ?thesis by (simp add: EVENT_BUFFER_SIZE_def SEM_VALUE_MAX_def)
qed

lemma send_full:
  "(head w + 1) mod EVENT_BUFFER_SIZE = tail w \<Longrightarrow>
   send_input_event_to_keyboard ev w = Inl (ProcessExit 1)"
  by (simp add: send_input_event_to_keyboard_def)

lemma send_not_full:
  assumes "ring_ok w" "(head w + 1) mod EVENT_BUFFER_SIZE \<noteq> tail w"
  shows "send_input_event_to_keyboard ev w =
           Inr (w\<lparr>kb_event_buffer := (kb_event_buffer w)(head w := ev),
                  head := (head w + 1) mod EVENT_BUFFER_SIZE,
                  kb_event_sem := kb_event_sem w + 1\<rparr>)"
  using assms ring_ok_sem_bound [OF assms(1)]
  by (simp add: send_input_event_to_keyboard_def sem_post_def)

lemma full_iff_count:
  assumes "ring_ok w"
  shows "(head w + 1) mod EVENT_BUFFER_SIZE = tail w \<longleftrightarrow>
         pending_count w = EVENT_BUFFER_SIZE - 1"
  using assms ring_full_iff [of "head w" EVENT_BUFFER_SIZE "tail w"] buffer_size_pos
  by (simp add: ring_ok_def pending_count_def)

lemma pending_count_less: "pending_count w < EVENT_BUFFER_SIZE"
  using buffer_size_pos(1) by (simp add: pending_count_def)

lemma send_result:
  assumes ok: "ring_ok w" and nf: "(head w + 1) mod EVENT_BUFFER_SIZE \<noteq> tail w"
    and w1: "w1 = w\<lparr>kb_event_buffer := (kb_event_buffer w)(head w := ev),
                     head := (head w + 1) mod EVENT_BUFFER_SIZE,
                     kb_event_sem := kb_event_sem w + 1\<rparr>"
  shows "ring_ok w1" and "pending w1 = pending w @ [ev]"
proof -
  have h: "head w < EVENT_BUFFER_SIZE" and t: "tail w < EVENT_BUFFER_SIZE"
    and s: "kb_event_sem w = pending_count w"
    using ok by (simp_all add: ring_ok_def)
  have cnt: "pending_count w1 = Suc (pending_count w)"
    using ring_distance_succ [OF h t] nf by (simp add: w1 pending_count_def)
  show "ring_ok w1"
    using h t s cnt buffer_size_pos(1) by (simp add: ring_ok_def) (simp add: w1)
  have last: "(tail w + pending_count w) mod EVENT_BUFFER_SIZE = head w"
    using ring_index_head [OF h t] by (simp add: pending_count_def)
  have other: "(tail w + i) mod EVENT_BUFFER_SIZE \<noteq> head w" if "i < pending_count w" for i
    using ring_index_inj [OF h t] that by (simp add: pending_count_def)
  have "pending w1 =
          map (\<lambda>i. kb_event_buffer w1 ((tail w + i) mod EVENT_BUFFER_SIZE)) [0..<pending_count w]
          @ [kb_event_buffer w1 ((tail w + pending_count w) mod EVENT_BUFFER_SIZE)]"
    by (simp add: pending_def cnt) (simp add: w1)
  also have "map (\<lambda>i. kb_event_buffer w1 ((tail w + i) mod EVENT_BUFFER_SIZE)) [0..<pending_count w]
             = pending w"
    unfolding pending_def using other by (intro map_cong) (auto simp: w1)
  also have "kb_event_buffer w1 ((tail w + pending_count w) mod EVENT_BUFFER_SIZE) = ev"
    by (simp add: last w1)
  finally show "pending w1 = pending w @ [ev]" .
qed

lemma sem_drain_zero: "sem_drain s = 0"
proof (induction s rule: sem_drain.induct)
  case (1 s)
  show ?case
  proof (cases "s > 0")
    case True
    with "1" show ?thesis by (subst sem_drain.simps) simp
  next
    case False
    then show ?thesis by (subst sem_drain.simps) simp
  qed
qed

lemma pending_Nil_iff: "pending w = [] \<longleftrightarrow> pending_count w = 0"
  by (simp add: pending_def)

lemma length_pending: "length (pending w) = pending_count w"
  by (simp add: pending_def)

lemma pending_count_zero_iff:
  assumes "ring_ok w"
  shows "pending_count w = 0 \<longleftrightarrow> head w = tail w"
  using assms ring_distance [of "head w" EVENT_BUFFER_SIZE "tail w"]
  by (auto simp: ring_ok_def pending_count_def split: if_splits)

lemma pop_blocked:
  assumes "ring_ok w" "pending w = []"
  shows "keyboard_process_o_iter w = None"
  using assms by (simp add: keyboard_process_o_iter_def ring_ok_def pending_Nil_iff)

lemma pop_result:
  assumes ok: "ring_ok w" and ne: "pending w \<noteq> []"
  shows "\<exists>w1. keyboard_process_o_iter w = Some w1 \<and> ring_ok w1
              \<and> pending w = hd (pending w) # pending w1
              \<and> v_kb_out w1 = v_kb_out w @ [hd (pending w)]
              \<and> v_g502_out w1 = v_g502_out w"
proof -
  have h: "head w < EVENT_BUFFER_SIZE" and t: "tail w < EVENT_BUFFER_SIZE"
    and s: "kb_event_sem w = pending_count w"
    using ok by (simp_all add: ring_ok_def)
  have pos: "pending_count w \<noteq> 0" using ne by (simp add: pending_Nil_iff)
  then have ht: "head w \<noteq> tail w" using pending_count_zero_iff [OF ok] by simp
  define w1 where "w1 = w\<lparr>kb_event_sem := kb_event_sem w - 1,
      tail := (tail w + 1) mod EVENT_BUFFER_SIZE,
      v_kb_out := v_kb_out w @ [kb_event_buffer w (tail w)]\<rparr>"
  have iter: "keyboard_process_o_iter w = Some w1"
    using pos s by (simp add: keyboard_process_o_iter_def w1_def Let_def)
  have cnt: "Suc (pending_count w1) = pending_count w"
    using ring_distance_tail_succ [OF h t ht] by (simp add: pending_count_def w1_def)
  have ok1: "ring_ok w1"
    using h s cnt buffer_size_pos(1) by (simp add: ring_ok_def) (simp add: w1_def)
  have idx: "(tail w1 + i) mod EVENT_BUFFER_SIZE = (tail w + Suc i) mod EVENT_BUFFER_SIZE" for i
    using ring_index_shift [of "tail w" EVENT_BUFFER_SIZE i] by (simp add: w1_def)
  have "pending w =
          map (\<lambda>i. kb_event_buffer w ((tail w + i) mod EVENT_BUFFER_SIZE)) [0..<Suc (pending_count w1)]"
    by (simp only: pending_def cnt)
  also have "\<dots> = kb_event_buffer w (tail w)
                 # map (\<lambda>i. kb_event_buffer w ((tail w + Suc i) mod EVENT_BUFFER_SIZE)) [0..<pending_count w1]"
    using t by (simp only: map_upt_Suc) simp
  also have "map (\<lambda>i. kb_event_buffer w ((tail w + Suc i) mod EVENT_BUFFER_SIZE)) [0..<pending_count w1]
             = pending w1"
    unfolding pending_def by (simp only: idx) (simp add: w1_def)
  finally have p: "pending w = kb_event_buffer w (tail w) # pending w1" .
  then have "hd (pending w) = kb_event_buffer w (tail w)" by simp
  with p iter ok1 show ?thesis by (auto simp: w1_def)
qed

lemma clear_result:
  "head (clear_keyboard_buffer w) = tail (clear_keyboard_buffer w)"
  "tail (clear_keyboard_buffer w) = tail w"
  "kb_event_sem (clear_keyboard_buffer w) = 0"
  "v_kb_out (clear_keyboard_buffer w) = v_kb_out w"
  "v_g502_out (clear_keyboard_buffer w) = v_g502_out w"
  by (simp_all add: clear_keyboard_buffer_def sem_drain_zero)

lemma clear_pending:
  assumes "tail w < EVENT_BUFFER_SIZE"
  shows "ring_ok (clear_keyboard_buffer w)" and "pending (clear_keyboard_buffer w) = []"
  using assms by (simp_all add: ring_ok_def pending_def pending_count_def clear_keyboard_buffer_def sem_drain_zero)

lemma transport_run_fifo:
  assumes "ring_ok w" "transport_run ops w = Inr w1"
  shows "ring_ok w1 \<and> v_kb_out w1 @ pending w1 = v_kb_out w @ pending w @ pushed ops
         \<and> v_g502_out w1 = v_g502_out w"
  using assms
proof (induction ops w rule: transport_run.induct)
  case (1 w)
  then show ?case by simp
next
  case (2 ev ops w)
  show ?case
  proof (cases "(head w + 1) mod EVENT_BUFFER_SIZE = tail w")
    case True
    with "2.prems" show ?thesis by (simp add: send_full)
  next
    case False
    define w2 where "w2 = w\<lparr>kb_event_buffer := (kb_event_buffer w)(head w := ev),
                     head := (head w + 1) mod EVENT_BUFFER_SIZE,
                     kb_event_sem := kb_event_sem w + 1\<rparr>"
    have snd: "send_input_event_to_keyboard ev w = Inr w2"
      unfolding w2_def by (rule send_not_full [OF "2.prems"(1) False])
    have ok2: "ring_ok w2" and p2: "pending w2 = pending w @ [ev]"
      using send_result [OF "2.prems"(1) False w2_def] by simp_all
    have run: "transport_run ops w2 = Inr w1" using "2.prems"(2) snd by simp
    have "ring_ok w1 \<and> v_kb_out w1 @ pending w1 = v_kb_out w2 @ pending w2 @ pushed ops
         \<and> v_g502_out w1 = v_g502_out w2"
      using "2.IH" [OF snd ok2 run] .
    then show ?thesis by (simp add: p2) (simp add: w2_def)
  qed
next
  case (3 ops w)
  show ?case
  proof (cases "pending w = []")
    case True
    then have none: "keyboard_process_o_iter w = None" using pop_blocked "3.prems"(1) by blast
    then have "transport_run ops w = Inr w1" using "3.prems"(2) by simp
    then show ?thesis using "3.IH"(1) [OF none "3.prems"(1)] by simp
  next
    case False
    from pop_result [OF "3.prems"(1) False] obtain w2 where
      it: "keyboard_process_o_iter w = Some w2" and ok2: "ring_ok w2"
      and p: "pending w = hd (pending w) # pending w2"
      and o: "v_kb_out w2 = v_kb_out w @ [hd (pending w)]"
      and g: "v_g502_out w2 = v_g502_out w" by blast
    have run: "transport_run ops w2 = Inr w1" using "3.prems"(2) it by simp
    have "ring_ok w1 \<and> v_kb_out w1 @ pending w1 = v_kb_out w2 @ pending w2 @ pushed ops
         \<and> v_g502_out w1 = v_g502_out w2"
      using "3.IH"(2) [OF it ok2 run] .
    moreover have "v_kb_out w2 @ pending w2 = v_kb_out w @ pending w"
      using p o by (metis append.assoc append_Cons append_Nil)
    ultimately show ?thesis using g by simp
  qed
qed

lemma transport_run_drain:
  assumes "ring_ok w" "n = length (pending w)"
  shows "\<exists>w1. transport_run (replicate n Pop) w = Inr w1 \<and> ring_ok w1
              \<and> v_kb_out w1 = v_kb_out w @ pending w \<and> pending w1 = []
              \<and> v_g502_out w1 = v_g502_out w"
  using assms
proof (induction n arbitrary: w)
  case 0
  then show ?case by simp
next
  case (Suc n)
  then have ne: "pending w \<noteq> []" by auto
  from pop_result [OF Suc.prems(1) ne] obtain w2 where
    it: "keyboard_process_o_iter w = Some w2" and ok2: "ring_ok w2"
    and p: "pending w = hd (pending w) # pending w2"
    and o: "v_kb_out w2 = v_kb_out w @ [hd (pending w)]"
    and g: "v_g502_out w2 = v_g502_out w" by blast
  have "n = length (pending w2)" using Suc.prems(2) p by (metis length_Cons nat.inject)
  from Suc.IH [OF ok2 this] obtain w1 where
    r: "transport_run (replicate n Pop) w2 = Inr w1" and ok1: "ring_ok w1"
    and o1: "v_kb_out w1 = v_kb_out w2 @ pending w2" and p1: "pending w1 = []"
    and g1: "v_g502_out w1 = v_g502_out w2" by blast
  have "v_kb_out w2 @ pending w2 = v_kb_out w @ pending w"
    using p o by (metis append.assoc append_Cons append_Nil)
  with r ok1 o1 p1 g1 g it show ?case by simp
qed

section \<open>Claims about the ring buffer\<close>

text \<open>
  Claim C3. On a ring of \<open>2\<^sup>1\<^sup>8\<close> slots, \<^verbatim>\<open>send_input_event_to_keyboard\<close> finds the
  ring full (the next write index equals the read index) exactly when \<open>2\<^sup>1\<^sup>8 - 1\<close> events
  are pending, and then the process exits with status 1. Otherwise it stores the event at
  the write index, advances the write index, leaves the read index alone and raises the
  semaphore by one: the event becomes the newest pending event, none is dropped, and the
  indices and the semaphore stay consistent.
\<close>

theorem push_stores_or_exits:
  assumes "ring_ok w"
  shows "((head w + 1) mod EVENT_BUFFER_SIZE = tail w \<longleftrightarrow> pending_count w = 2 ^ 18 - 1) \<and>
         (if (head w + 1) mod EVENT_BUFFER_SIZE = tail w
          then send_input_event_to_keyboard ev w = Inl (ProcessExit 1)
          else \<exists>w1. send_input_event_to_keyboard ev w = Inr w1
                 \<and> kb_event_buffer w1 = (kb_event_buffer w)(head w := ev)
                 \<and> head w1 = (head w + 1) mod EVENT_BUFFER_SIZE
                 \<and> tail w1 = tail w
                 \<and> kb_event_sem w1 = kb_event_sem w + 1
                 \<and> pending w1 = pending w @ [ev]
                 \<and> v_kb_out w1 = v_kb_out w \<and> v_g502_out w1 = v_g502_out w
                 \<and> ring_ok w1)"
proof -
  have full: "(head w + 1) mod EVENT_BUFFER_SIZE = tail w \<longleftrightarrow> pending_count w = 2 ^ 18 - 1"
    using full_iff_count [OF assms] by (simp add: EVENT_BUFFER_SIZE_def)
  show ?thesis
  proof (cases "(head w + 1) mod EVENT_BUFFER_SIZE = tail w")
    case True
    then show ?thesis using full send_full [OF True] by simp
  next
    case False
    define w1 where "w1 = w\<lparr>kb_event_buffer := (kb_event_buffer w)(head w := ev),
                     head := (head w + 1) mod EVENT_BUFFER_SIZE,
                     kb_event_sem := kb_event_sem w + 1\<rparr>"
    have "send_input_event_to_keyboard ev w = Inr w1"
      unfolding w1_def by (rule send_not_full [OF assms False])
    moreover have "ring_ok w1" "pending w1 = pending w @ [ev]"
      using send_result [OF assms False w1_def] by simp_all
    ultimately have "\<exists>w1. send_input_event_to_keyboard ev w = Inr w1
                 \<and> kb_event_buffer w1 = (kb_event_buffer w)(head w := ev)
                 \<and> head w1 = (head w + 1) mod EVENT_BUFFER_SIZE
                 \<and> tail w1 = tail w
                 \<and> kb_event_sem w1 = kb_event_sem w + 1
                 \<and> pending w1 = pending w @ [ev]
                 \<and> v_kb_out w1 = v_kb_out w \<and> v_g502_out w1 = v_g502_out w
                 \<and> ring_ok w1"
      by (intro exI [of _ w1]) (simp add: w1_def)
    then show ?thesis using full False by simp
  qed
qed

lemma ring_ok_initial: "ring_ok initial_world"
  by (simp add: ring_ok_def initial_world_def pending_count_def EVENT_BUFFER_SIZE_def)

lemma pending_initial: "pending initial_world = []"
  by (simp add: pending_def initial_world_def pending_count_def EVENT_BUFFER_SIZE_def)

theorem push_stores_or_exits_witness:
  "ring_ok initial_world
   \<and> (\<exists>w1. send_input_event_to_keyboard zero_event initial_world = Inr w1
          \<and> head w1 = 1 \<and> tail w1 = 0 \<and> kb_event_sem w1 = 1 \<and> pending w1 = [zero_event])
   \<and> ring_ok (initial_world\<lparr>head := 262143, kb_event_sem := 262143\<rparr>)
   \<and> pending_count (initial_world\<lparr>head := 262143, kb_event_sem := 262143\<rparr>) = 2 ^ 18 - 1
   \<and> send_input_event_to_keyboard zero_event (initial_world\<lparr>head := 262143, kb_event_sem := 262143\<rparr>)
       = Inl (ProcessExit 1)"
proof -
  let ?f = "initial_world\<lparr>head := 262143, kb_event_sem := 262143\<rparr>"
  have a: "ring_ok initial_world" by (rule ring_ok_initial)
  have b: "ring_ok ?f"
    by (simp add: ring_ok_def initial_world_def pending_count_def EVENT_BUFFER_SIZE_def)
  have nf: "(head initial_world + 1) mod EVENT_BUFFER_SIZE \<noteq> tail initial_world"
    by (simp add: initial_world_def EVENT_BUFFER_SIZE_def)
  have f: "(head ?f + 1) mod EVENT_BUFFER_SIZE = tail ?f"
    by (simp add: initial_world_def EVENT_BUFFER_SIZE_def)
  have h0: "head initial_world = 0" "tail initial_world = 0" "kb_event_sem initial_world = 0"
    by (simp_all add: initial_world_def)
  show ?thesis
    using push_stores_or_exits [OF a, of zero_event] push_stores_or_exits [OF b, of zero_event]
      a b nf f pending_initial h0
    by (auto simp: EVENT_BUFFER_SIZE_def)
qed

text \<open>
  Claim C4. The ring is first in, first out. After any schedule of pushes and output
  iterations that the process survives, the events written to the virtual keyboard followed
  by the events still pending are the events that were there before followed by the pushed
  events in push order; and as many further output iterations as there are pending events
  deliver all of them, so the keyboard output is exactly the push order.
\<close>

theorem transport_is_fifo:
  assumes "ring_ok w" and "transport_run ops w = Inr w1"
  shows "v_kb_out w1 @ pending w1 = v_kb_out w @ pending w @ pushed ops
         \<and> (\<exists>w2. transport_run (replicate (length (pending w1)) Pop) w1 = Inr w2
                \<and> v_kb_out w2 = v_kb_out w @ pending w @ pushed ops
                \<and> pending w2 = [])"
proof -
  have a: "ring_ok w1" and b: "v_kb_out w1 @ pending w1 = v_kb_out w @ pending w @ pushed ops"
    using transport_run_fifo [OF assms] by simp_all
  from transport_run_drain [OF a refl] obtain w2 where
    "transport_run (replicate (length (pending w1)) Pop) w1 = Inr w2"
    "v_kb_out w2 = v_kb_out w1 @ pending w1" "pending w2 = []" by blast
  with b show ?thesis by simp
qed

theorem transport_is_fifo_witness:
  "ring_ok initial_world
   \<and> (\<exists>w1. transport_run
             [Push (zero_event\<lparr>ev_code := 30\<rparr>), Push (zero_event\<lparr>ev_code := 48\<rparr>), Pop,
              Push (zero_event\<lparr>ev_code := 46\<rparr>)] initial_world = Inr w1
          \<and> v_kb_out w1 @ pending w1
              = [zero_event\<lparr>ev_code := 30\<rparr>, zero_event\<lparr>ev_code := 48\<rparr>, zero_event\<lparr>ev_code := 46\<rparr>]
          \<and> (\<exists>w2. transport_run (replicate (length (pending w1)) Pop) w1 = Inr w2
                \<and> v_kb_out w2
                    = [zero_event\<lparr>ev_code := 30\<rparr>, zero_event\<lparr>ev_code := 48\<rparr>, zero_event\<lparr>ev_code := 46\<rparr>]
                \<and> pending w2 = []))"
proof -
  let ?ops = "[Push (zero_event\<lparr>ev_code := 30\<rparr>), Push (zero_event\<lparr>ev_code := 48\<rparr>), Pop,
              Push (zero_event\<lparr>ev_code := 46\<rparr>)]"
  have "\<exists>w1. transport_run ?ops initial_world = Inr w1"
    by (simp add: send_input_event_to_keyboard_def sem_post_def keyboard_process_o_iter_def
        initial_world_def EVENT_BUFFER_SIZE_def SEM_VALUE_MAX_def)
  then obtain w1 where r: "transport_run ?ops initial_world = Inr w1" by blast
  have o: "v_kb_out initial_world = []" by (simp add: initial_world_def)
  show ?thesis
    using transport_is_fifo [OF ring_ok_initial r] r ring_ok_initial pending_initial o
    by simp
qed

text \<open>
  The purge when no other thread runs during the call: on return the write index equals
  the read index, the semaphore is zero and no event is pending, and as long as every later
  call runs to completion too, the keyboard output is what it was before the purge followed
  by events pushed after the purge only.
\<close>

lemma purge_discards_pending:
  assumes "ring_ok w"
  shows "head (clear_keyboard_buffer w) = tail (clear_keyboard_buffer w)
         \<and> kb_event_sem (clear_keyboard_buffer w) = 0
         \<and> pending (clear_keyboard_buffer w) = []
         \<and> (\<forall>ops w1. transport_run ops (clear_keyboard_buffer w) = Inr w1 \<longrightarrow>
                v_kb_out w1 @ pending w1 = v_kb_out w @ pushed ops)"
proof -
  have t: "tail w < EVENT_BUFFER_SIZE" using assms by (simp add: ring_ok_def)
  have ok: "ring_ok (clear_keyboard_buffer w)" and p: "pending (clear_keyboard_buffer w) = []"
    using clear_pending [OF t] by simp_all
  have "v_kb_out w1 @ pending w1 = v_kb_out w @ pushed ops"
    if "transport_run ops (clear_keyboard_buffer w) = Inr w1" for ops w1
    using transport_run_fifo [OF ok that] p by (simp add: clear_result)
  then show ?thesis using p by (simp add: clear_result)
qed

lemma purge_discards_pending_example:
  "ring_ok (initial_world\<lparr>kb_event_buffer := (\<lambda>_. zero_event\<lparr>ev_code := 30\<rparr>),
                           head := 2, kb_event_sem := 2\<rparr>)
   \<and> pending (initial_world\<lparr>kb_event_buffer := (\<lambda>_. zero_event\<lparr>ev_code := 30\<rparr>),
                           head := 2, kb_event_sem := 2\<rparr>)
       = [zero_event\<lparr>ev_code := 30\<rparr>, zero_event\<lparr>ev_code := 30\<rparr>]
   \<and> (\<exists>w1. transport_run [Push (zero_event\<lparr>ev_code := 48\<rparr>), Pop, Pop]
             (clear_keyboard_buffer
                (initial_world\<lparr>kb_event_buffer := (\<lambda>_. zero_event\<lparr>ev_code := 30\<rparr>),
                                head := 2, kb_event_sem := 2\<rparr>)) = Inr w1
          \<and> v_kb_out w1 @ pending w1 = [zero_event\<lparr>ev_code := 48\<rparr>])"
proof -
  let ?w = "initial_world\<lparr>kb_event_buffer := (\<lambda>_. zero_event\<lparr>ev_code := 30\<rparr>),
                           head := 2, kb_event_sem := 2\<rparr>"
  have ok: "ring_ok ?w"
    by (simp add: ring_ok_def initial_world_def pending_count_def EVENT_BUFFER_SIZE_def)
  have pc: "pending_count ?w = 2"
    by (simp add: initial_world_def pending_count_def EVENT_BUFFER_SIZE_def)
  have two: "[0..<2] = [0, Suc 0]" by (simp add: numeral_2_eq_2)
  have p: "pending ?w = [zero_event\<lparr>ev_code := 30\<rparr>, zero_event\<lparr>ev_code := 30\<rparr>]"
    by (simp only: pending_def pc two) (simp add: initial_world_def)
  have "\<exists>w1. transport_run [Push (zero_event\<lparr>ev_code := 48\<rparr>), Pop, Pop]
               (clear_keyboard_buffer ?w) = Inr w1"
    by (simp add: send_input_event_to_keyboard_def sem_post_def keyboard_process_o_iter_def
        clear_keyboard_buffer_def sem_drain_zero
        initial_world_def EVENT_BUFFER_SIZE_def SEM_VALUE_MAX_def)
  then obtain w1 where r: "transport_run [Push (zero_event\<lparr>ev_code := 48\<rparr>), Pop, Pop]
               (clear_keyboard_buffer ?w) = Inr w1" by blast
  have o: "v_kb_out ?w = []" by (simp add: initial_world_def)
  have "\<forall>ops w1. transport_run ops (clear_keyboard_buffer ?w) = Inr w1 \<longrightarrow>
                v_kb_out w1 @ pending w1 = v_kb_out ?w @ pushed ops"
    using purge_discards_pending [OF ok] by blast
  with r have "v_kb_out w1 @ pending w1
                 = v_kb_out ?w @ pushed [Push (zero_event\<lparr>ev_code := 48\<rparr>), Pop, Pop]"
    by blast
  then have "v_kb_out w1 @ pending w1 = [zero_event\<lparr>ev_code := 48\<rparr>]"
    by (simp add: o)
  with ok p r show ?thesis by blast
qed

lemma output_iter_split:
  "keyboard_process_o_iter w = map_option keyboard_process_o_take (keyboard_process_o_wait w)"
  by (simp add: keyboard_process_o_iter_def keyboard_process_o_wait_def
      keyboard_process_o_take_def sem_wait_def Let_def)

lemma send_split:
  "send_input_event_to_keyboard ev w =
     (case send_locked ev w of Inl h \<Rightarrow> Inl h | Inr w1 \<Rightarrow> Inr (send_post w1))"
  by (simp add: send_input_event_to_keyboard_def send_locked_def send_post_def Let_def
      split: option.split)

text \<open>
  Claim C5. The claim is that right after \<^verbatim>\<open>clear_keyboard_buffer\<close> returns the write
  index equals the read index and the semaphore is zero, so that no event enqueued before
  the purge is delivered afterwards. The code does not keep it, because the output thread
  reads and advances \<^verbatim>\<open>tail\<close> without the mutex. One key event is pushed into the empty
  ring; the output thread passes \<^verbatim>\<open>sem_wait\<close>; the keyboard thread fails to read and
  purges, leaving both indices at 0 and the semaphore at 0; the output thread goes on, takes
  the purged event from slot 0, moves \<^verbatim>\<open>tail\<close> to 1 and writes the event to the virtual
  keyboard. The event enqueued before the purge is delivered after it, the indices differ
  although nothing is pending, and the next push finds the ring full and exits.
\<close>

theorem purge_race_delivers_purged_event:
  "send_input_event_to_keyboard (zero_event\<lparr>ev_type := EV_KEY, ev_code := 30, ev_value := 1\<rparr>)
     initial_world
   = Inr (initial_world
          \<lparr>kb_event_buffer :=
             (\<lambda>_. zero_event)(0 := zero_event\<lparr>ev_type := EV_KEY, ev_code := 30, ev_value := 1\<rparr>),
           head := 1, kb_event_sem := 1\<rparr>)
   \<and> keyboard_process_o_wait
       (initial_world
          \<lparr>kb_event_buffer :=
             (\<lambda>_. zero_event)(0 := zero_event\<lparr>ev_type := EV_KEY, ev_code := 30, ev_value := 1\<rparr>),
           head := 1, kb_event_sem := 1\<rparr>)
     = Some (initial_world
          \<lparr>kb_event_buffer :=
             (\<lambda>_. zero_event)(0 := zero_event\<lparr>ev_type := EV_KEY, ev_code := 30, ev_value := 1\<rparr>),
           head := 1, kb_event_sem := 0\<rparr>)
   \<and> clear_keyboard_buffer
       (initial_world
          \<lparr>kb_event_buffer :=
             (\<lambda>_. zero_event)(0 := zero_event\<lparr>ev_type := EV_KEY, ev_code := 30, ev_value := 1\<rparr>),
           head := 1, kb_event_sem := 0\<rparr>)
     = initial_world
          \<lparr>kb_event_buffer :=
             (\<lambda>_. zero_event)(0 := zero_event\<lparr>ev_type := EV_KEY, ev_code := 30, ev_value := 1\<rparr>),
           head := 0, kb_event_sem := 0\<rparr>
   \<and> keyboard_process_o_take
       (initial_world
          \<lparr>kb_event_buffer :=
             (\<lambda>_. zero_event)(0 := zero_event\<lparr>ev_type := EV_KEY, ev_code := 30, ev_value := 1\<rparr>),
           head := 0, kb_event_sem := 0\<rparr>)
     = initial_world
          \<lparr>kb_event_buffer :=
             (\<lambda>_. zero_event)(0 := zero_event\<lparr>ev_type := EV_KEY, ev_code := 30, ev_value := 1\<rparr>),
           head := 0, tail := 1, kb_event_sem := 0,
           v_kb_out := [zero_event\<lparr>ev_type := EV_KEY, ev_code := 30, ev_value := 1\<rparr>]\<rparr>
   \<and> send_input_event_to_keyboard (zero_event\<lparr>ev_type := EV_KEY, ev_code := 48, ev_value := 1\<rparr>)
       (initial_world
          \<lparr>kb_event_buffer :=
             (\<lambda>_. zero_event)(0 := zero_event\<lparr>ev_type := EV_KEY, ev_code := 30, ev_value := 1\<rparr>),
           head := 0, tail := 1, kb_event_sem := 0,
           v_kb_out := [zero_event\<lparr>ev_type := EV_KEY, ev_code := 30, ev_value := 1\<rparr>]\<rparr>)
     = Inl (ProcessExit 1)"
  by (simp add: send_input_event_to_keyboard_def sem_post_def keyboard_process_o_wait_def
      sem_wait_def clear_keyboard_buffer_def sem_drain_zero keyboard_process_o_take_def
      initial_world_def EVENT_BUFFER_SIZE_def SEM_VALUE_MAX_def Let_def)

text \<open>
  The same loss through the other gap: the mouse thread has stored a modifier press under
  the mutex, the keyboard thread purges, and only then the mouse thread posts the semaphore.
  The output thread is woken on an empty ring and delivers the purged press.
\<close>

lemma late_post_delivers_purged_event:
  "send_locked (zero_event\<lparr>ev_type := EV_KEY, ev_code := KEY_LEFTSHIFT, ev_value := 1\<rparr>)
     initial_world
   = Inr (initial_world
          \<lparr>kb_event_buffer :=
             (\<lambda>_. zero_event)
               (0 := zero_event\<lparr>ev_type := EV_KEY, ev_code := KEY_LEFTSHIFT, ev_value := 1\<rparr>),
           head := 1\<rparr>)
   \<and> keyboard_process_o_iter
       (send_post
          (clear_keyboard_buffer
             (initial_world
                \<lparr>kb_event_buffer :=
                   (\<lambda>_. zero_event)
                     (0 := zero_event\<lparr>ev_type := EV_KEY, ev_code := KEY_LEFTSHIFT, ev_value := 1\<rparr>),
                 head := 1\<rparr>)))
     = Some (initial_world
          \<lparr>kb_event_buffer :=
             (\<lambda>_. zero_event)
               (0 := zero_event\<lparr>ev_type := EV_KEY, ev_code := KEY_LEFTSHIFT, ev_value := 1\<rparr>),
           head := 0, tail := 1, kb_event_sem := 0,
           v_kb_out := [zero_event\<lparr>ev_type := EV_KEY, ev_code := KEY_LEFTSHIFT, ev_value := 1\<rparr>]\<rparr>)"
  by (simp add: send_locked_def send_post_def sem_post_def keyboard_process_o_iter_def
      clear_keyboard_buffer_def sem_drain_zero
      initial_world_def EVENT_BUFFER_SIZE_def SEM_VALUE_MAX_def Let_def)

section \<open>Claims about the translation of mouse events\<close>

lemma send_room:
  assumes ok: "ring_ok w" and room: "pending_count w + 1 < EVENT_BUFFER_SIZE"
  shows "\<exists>w1. send_input_event_to_keyboard ev w = Inr w1 \<and> ring_ok w1
              \<and> pending w1 = pending w @ [ev]
              \<and> pending_count w1 = pending_count w + 1
              \<and> v_g502_out w1 = v_g502_out w \<and> v_kb_out w1 = v_kb_out w"
proof -
  have nf: "(head w + 1) mod EVENT_BUFFER_SIZE \<noteq> tail w"
    using full_iff_count [OF ok] room by simp
  define w1 where "w1 = w\<lparr>kb_event_buffer := (kb_event_buffer w)(head w := ev),
                     head := (head w + 1) mod EVENT_BUFFER_SIZE,
                     kb_event_sem := kb_event_sem w + 1\<rparr>"
  have s: "send_input_event_to_keyboard ev w = Inr w1"
    unfolding w1_def by (rule send_not_full [OF ok nf])
  have r: "ring_ok w1" "pending w1 = pending w @ [ev]"
    using send_result [OF ok nf w1_def] by simp_all
  have "length (pending w1) = length (pending w) + 1" using r(2) by simp
  then have "pending_count w1 = pending_count w + 1" by (simp only: length_pending)
  with s r show ?thesis by (intro exI [of _ w1]) (simp add: w1_def)
qed

lemma event_type_distinct:
  "EV_KEY \<noteq> EV_REL" "EV_KEY \<noteq> EV_MSC" "EV_KEY \<noteq> EV_SYN"
  "EV_REL \<noteq> EV_MSC" "EV_REL \<noteq> EV_SYN" "EV_MSC \<noteq> EV_SYN"
  "EV_REL \<noteq> EV_KEY" "EV_MSC \<noteq> EV_KEY" "EV_SYN \<noteq> EV_KEY"
  "EV_MSC \<noteq> EV_REL" "EV_SYN \<noteq> EV_REL" "EV_SYN \<noteq> EV_MSC"
  by (simp_all add: EV_KEY_def EV_REL_def EV_MSC_def EV_SYN_def)

lemma button_distinct: "BTN_SIDE \<noteq> BTN_EXTRA" "BTN_EXTRA \<noteq> BTN_SIDE"
  by (simp_all add: BTN_SIDE_def BTN_EXTRA_def)

lemma handle_side_button:
  assumes "ev_type ev = EV_KEY" "ev_code ev = BTN_SIDE \<or> ev_code ev = BTN_EXTRA"
  shows "mouse_handle_event ev (l, w) =
           (case send_input_event_to_keyboard
                   (ev\<lparr>ev_code := (if ev_code ev = BTN_SIDE then KEY_LEFTSHIFT else KEY_LEFTCTRL)\<rparr>) w of
              Inl h \<Rightarrow> Inl h
            | Inr w1 \<Rightarrow> Inr (l, w1))"
  using assms by (auto simp: mouse_handle_event_def Let_def)

lemma handle_syn:
  assumes "ev_type ev = EV_SYN"
  shows "mouse_handle_event ev (l, w) =
           (case send_input_event_to_keyboard ev w of
              Inl h \<Rightarrow> Inl h
            | Inr w1 \<Rightarrow> Inr (l, write_g502 ev w1))"
  using assms by (simp add: mouse_handle_event_def event_type_distinct)

lemma handle_scan:
  assumes "ev_type ev = EV_MSC" "ev_code ev = MSC_SCAN"
  shows "mouse_handle_event ev (l, w) =
           (if ev_value ev = SCAN_BTN_SIDE then
              (case send_input_event_to_keyboard (ev\<lparr>ev_value := SCAN_KEY_SHIFT\<rparr>) w of
                 Inl h \<Rightarrow> Inl h
               | Inr w1 \<Rightarrow> Inr (l, w1))
            else if ev_value ev = SCAN_BTN_EXTRA then
              (case send_input_event_to_keyboard (ev\<lparr>ev_value := SCAN_KEY_CTRL\<rparr>) w of
                 Inl h \<Rightarrow> Inl h
               | Inr w1 \<Rightarrow> Inr (l, w1))
            else Inr (l, write_g502 ev w))"
  using assms by (simp add: mouse_handle_event_def event_type_distinct)

lemma write_g502_ring:
  "ring_ok (write_g502 ev w) = ring_ok w"
  "pending (write_g502 ev w) = pending w"
  "pending_count (write_g502 ev w) = pending_count w"
  "v_kb_out (write_g502 ev w) = v_kb_out w"
  "v_g502_out (write_g502 ev w) = v_g502_out w @ [ev]"
  by (simp_all add: write_g502_def ring_ok_def pending_def pending_count_def)

text \<open>
  Claim C1. Every \<^verbatim>\<open>EV_KEY\<close> event of the mouse whose code is \<^verbatim>\<open>BTN_SIDE\<close> or
  \<^verbatim>\<open>BTN_EXTRA\<close> becomes exactly one pending keyboard event: the same event with the code
  replaced by \<^verbatim>\<open>KEY_LEFTSHIFT\<close> or \<^verbatim>\<open>KEY_LEFTCTRL\<close> and the value (press, release or
  autorepeat) untouched. Nothing is written to the virtual mouse. So for any run of such
  events that fits into the ring, a press and its release in particular, the output thread
  delivers the rewritten events in the same order to the virtual keyboard.
\<close>

theorem side_buttons_to_keyboard:
  assumes "\<forall>ev \<in> set evs. ev_type ev = EV_KEY \<and> (ev_code ev = BTN_SIDE \<or> ev_code ev = BTN_EXTRA)"
    and "ring_ok w" and "pending_count w + length evs < EVENT_BUFFER_SIZE"
  shows "\<exists>w1. mouse_handle_events evs (l, w) = Inr (l, w1) \<and> ring_ok w1
              \<and> pending w1 = pending w @
                   map (\<lambda>ev. ev\<lparr>ev_code := (if ev_code ev = BTN_SIDE then KEY_LEFTSHIFT
                                             else KEY_LEFTCTRL)\<rparr>) evs
              \<and> v_g502_out w1 = v_g502_out w \<and> v_kb_out w1 = v_kb_out w
              \<and> (\<exists>w2. transport_run (replicate (length (pending w1)) Pop) w1 = Inr w2
                     \<and> v_kb_out w2 = v_kb_out w @ pending w @
                          map (\<lambda>ev. ev\<lparr>ev_code := (if ev_code ev = BTN_SIDE then KEY_LEFTSHIFT
                                                    else KEY_LEFTCTRL)\<rparr>) evs
                     \<and> v_g502_out w2 = v_g502_out w)"
proof -
  let ?k = "\<lambda>ev. ev\<lparr>ev_code := (if ev_code ev = BTN_SIDE then KEY_LEFTSHIFT else KEY_LEFTCTRL)\<rparr>"
  have run: "\<exists>w1. mouse_handle_events evs (l, w) = Inr (l, w1) \<and> ring_ok w1
              \<and> pending w1 = pending w @ map ?k evs
              \<and> v_g502_out w1 = v_g502_out w \<and> v_kb_out w1 = v_kb_out w"
    using assms
  proof (induction evs arbitrary: w)
    case Nil
    then show ?case by simp
  next
    case (Cons ev evs)
    have ty: "ev_type ev = EV_KEY" and co: "ev_code ev = BTN_SIDE \<or> ev_code ev = BTN_EXTRA"
      using Cons.prems(1) by simp_all
    have room: "pending_count w + 1 < EVENT_BUFFER_SIZE" using Cons.prems(3) by simp
    from send_room [OF Cons.prems(2) room, of "?k ev"] obtain w1 where
      s: "send_input_event_to_keyboard (?k ev) w = Inr w1" and ok1: "ring_ok w1"
      and p1: "pending w1 = pending w @ [?k ev]"
      and c1: "pending_count w1 = pending_count w + 1"
      and o1: "v_g502_out w1 = v_g502_out w" "v_kb_out w1 = v_kb_out w" by blast
    have h: "mouse_handle_event ev (l, w) = Inr (l, w1)"
      using handle_side_button [OF ty co, of l w] s by simp
    have rest: "\<forall>ev \<in> set evs. ev_type ev = EV_KEY \<and> (ev_code ev = BTN_SIDE \<or> ev_code ev = BTN_EXTRA)"
      using Cons.prems(1) by simp
    have room1: "pending_count w1 + length evs < EVENT_BUFFER_SIZE"
      using Cons.prems(3) c1 by simp
    from Cons.IH [OF rest ok1 room1] obtain w2 where
      "mouse_handle_events evs (l, w1) = Inr (l, w2)" "ring_ok w2"
      "pending w2 = pending w1 @ map ?k evs"
      "v_g502_out w2 = v_g502_out w1" "v_kb_out w2 = v_kb_out w1" by blast
    with h p1 o1 show ?case by simp
  qed
  then obtain w1 where w1: "mouse_handle_events evs (l, w) = Inr (l, w1)" "ring_ok w1"
    "pending w1 = pending w @ map ?k evs"
    "v_g502_out w1 = v_g502_out w" "v_kb_out w1 = v_kb_out w" by blast
  from transport_run_drain [OF w1(2) refl] obtain w2 where
    "transport_run (replicate (length (pending w1)) Pop) w1 = Inr w2"
    "v_kb_out w2 = v_kb_out w1 @ pending w1" "v_g502_out w2 = v_g502_out w1" by blast
  with w1 show ?thesis by (intro exI [of _ w1]) simp
qed

theorem side_buttons_to_keyboard_witness:
  "ring_ok initial_world
   \<and> pending_count initial_world + 4 < EVENT_BUFFER_SIZE
   \<and> (\<exists>w1. mouse_handle_events
             [zero_event\<lparr>ev_type := EV_KEY, ev_code := BTN_SIDE, ev_value := 1\<rparr>,
              zero_event\<lparr>ev_type := EV_KEY, ev_code := BTN_EXTRA, ev_value := 1\<rparr>,
              zero_event\<lparr>ev_type := EV_KEY, ev_code := BTN_EXTRA, ev_value := 0\<rparr>,
              zero_event\<lparr>ev_type := EV_KEY, ev_code := BTN_SIDE, ev_value := 0\<rparr>]
             (\<lparr>mouse_fd = 3, accum_x = 0, accum_y = 0, consecutive_failures = 0\<rparr>, initial_world)
           = Inr (\<lparr>mouse_fd = 3, accum_x = 0, accum_y = 0, consecutive_failures = 0\<rparr>, w1)
          \<and> v_g502_out w1 = []
          \<and> (\<exists>w2. transport_run (replicate (length (pending w1)) Pop) w1 = Inr w2
                 \<and> v_kb_out w2 =
                     [zero_event\<lparr>ev_type := EV_KEY, ev_code := KEY_LEFTSHIFT, ev_value := 1\<rparr>,
                      zero_event\<lparr>ev_type := EV_KEY, ev_code := KEY_LEFTCTRL, ev_value := 1\<rparr>,
                      zero_event\<lparr>ev_type := EV_KEY, ev_code := KEY_LEFTCTRL, ev_value := 0\<rparr>,
                      zero_event\<lparr>ev_type := EV_KEY, ev_code := KEY_LEFTSHIFT, ev_value := 0\<rparr>]
                 \<and> v_g502_out w2 = []))"
proof -
  let ?l = "\<lparr>mouse_fd = 3, accum_x = 0, accum_y = 0, consecutive_failures = 0\<rparr>"
  let ?evs = "[zero_event\<lparr>ev_type := EV_KEY, ev_code := BTN_SIDE, ev_value := 1\<rparr>,
              zero_event\<lparr>ev_type := EV_KEY, ev_code := BTN_EXTRA, ev_value := 1\<rparr>,
              zero_event\<lparr>ev_type := EV_KEY, ev_code := BTN_EXTRA, ev_value := 0\<rparr>,
              zero_event\<lparr>ev_type := EV_KEY, ev_code := BTN_SIDE, ev_value := 0\<rparr>]"
  let ?k = "\<lambda>ev. ev\<lparr>ev_code := (if ev_code ev = BTN_SIDE then KEY_LEFTSHIFT else KEY_LEFTCTRL)\<rparr>"
  let ?out = "[zero_event\<lparr>ev_type := EV_KEY, ev_code := KEY_LEFTSHIFT, ev_value := 1\<rparr>,
               zero_event\<lparr>ev_type := EV_KEY, ev_code := KEY_LEFTCTRL, ev_value := 1\<rparr>,
               zero_event\<lparr>ev_type := EV_KEY, ev_code := KEY_LEFTCTRL, ev_value := 0\<rparr>,
               zero_event\<lparr>ev_type := EV_KEY, ev_code := KEY_LEFTSHIFT, ev_value := 0\<rparr>]"
  have h1: "\<forall>ev \<in> set ?evs. ev_type ev = EV_KEY \<and> (ev_code ev = BTN_SIDE \<or> ev_code ev = BTN_EXTRA)"
    by simp
  have h3: "pending_count initial_world + length ?evs < EVENT_BUFFER_SIZE"
    by (simp add: initial_world_def pending_count_def EVENT_BUFFER_SIZE_def)
  have h3': "pending_count initial_world + 4 < EVENT_BUFFER_SIZE"
    using h3 by simp
  have o: "v_kb_out initial_world = []" "v_g502_out initial_world = []"
    by (simp_all add: initial_world_def)
  have m: "v_kb_out initial_world @ pending initial_world @ map ?k ?evs = ?out"
    by (simp add: o pending_initial button_distinct)
  from side_buttons_to_keyboard [OF h1 ring_ok_initial h3, of ?l] obtain w1 w2 where
    r: "mouse_handle_events ?evs (?l, initial_world) = Inr (?l, w1)"
    and g1: "v_g502_out w1 = v_g502_out initial_world"
    and d: "transport_run (replicate (length (pending w1)) Pop) w1 = Inr w2"
    and k2: "v_kb_out w2 = v_kb_out initial_world @ pending initial_world @ map ?k ?evs"
    and g2: "v_g502_out w2 = v_g502_out initial_world" by blast
  have k2': "v_kb_out w2 = ?out" using k2 m by (rule trans)
  have g1': "v_g502_out w1 = []" using g1 o(2) by (rule trans)
  have g2': "v_g502_out w2 = []" using g2 o(2) by (rule trans)
  have inner: "\<exists>w2. transport_run (replicate (length (pending w1)) Pop) w1 = Inr w2
                 \<and> v_kb_out w2 = ?out \<and> v_g502_out w2 = []"
    using d k2' g2' by (intro exI [of _ w2] conjI)
  have "mouse_handle_events ?evs (?l, initial_world) = Inr (?l, w1)
          \<and> v_g502_out w1 = []
          \<and> (\<exists>w2. transport_run (replicate (length (pending w1)) Pop) w1 = Inr w2
                 \<and> v_kb_out w2 = ?out \<and> v_g502_out w2 = [])"
    using r g1' inner by (intro conjI)
  then have ex: "\<exists>w1. mouse_handle_events ?evs (?l, initial_world) = Inr (?l, w1)
          \<and> v_g502_out w1 = []
          \<and> (\<exists>w2. transport_run (replicate (length (pending w1)) Pop) w1 = Inr w2
                 \<and> v_kb_out w2 = ?out \<and> v_g502_out w2 = [])"
    by (rule exI)
  show ?thesis
    by (rule conjI [OF ring_ok_initial conjI [OF h3' ex]])
qed

text \<open>
  Claim C6. An \<^verbatim>\<open>EV_SYN\<close> event of the mouse goes unchanged to both sides: it is pushed
  once into the ring, where it becomes the newest pending event and is delivered once to the
  virtual keyboard after the events pending before it, and it is written once to the virtual
  mouse.
\<close>

theorem syn_to_both_outputs:
  assumes "ev_type ev = EV_SYN" and "ring_ok w" and "pending_count w + 1 < EVENT_BUFFER_SIZE"
  shows "\<exists>w1. mouse_handle_event ev (l, w) = Inr (l, w1) \<and> ring_ok w1
              \<and> pending w1 = pending w @ [ev]
              \<and> v_g502_out w1 = v_g502_out w @ [ev]
              \<and> v_kb_out w1 = v_kb_out w
              \<and> (\<exists>w2. transport_run (replicate (length (pending w1)) Pop) w1 = Inr w2
                     \<and> v_kb_out w2 = v_kb_out w @ pending w @ [ev]
                     \<and> v_g502_out w2 = v_g502_out w @ [ev])"
proof -
  from send_room [OF assms(2,3), of ev] obtain w0 where
    s: "send_input_event_to_keyboard ev w = Inr w0" and ok0: "ring_ok w0"
    and p0: "pending w0 = pending w @ [ev]"
    and o0: "v_g502_out w0 = v_g502_out w" "v_kb_out w0 = v_kb_out w" by blast
  define w1 where "w1 = write_g502 ev w0"
  have h: "mouse_handle_event ev (l, w) = Inr (l, w1)"
    using handle_syn [OF assms(1), of l w] s by (simp add: w1_def)
  have ok1: "ring_ok w1" and p1: "pending w1 = pending w @ [ev]"
    and g1: "v_g502_out w1 = v_g502_out w @ [ev]" and k1: "v_kb_out w1 = v_kb_out w"
    using ok0 p0 o0 by (simp_all add: w1_def write_g502_ring)
  from transport_run_drain [OF ok1 refl] obtain w2 where
    "transport_run (replicate (length (pending w1)) Pop) w1 = Inr w2"
    "v_kb_out w2 = v_kb_out w1 @ pending w1" "v_g502_out w2 = v_g502_out w1" by blast
  with h ok1 p1 g1 k1 show ?thesis by (intro exI [of _ w1]) simp
qed

theorem syn_to_both_outputs_witness:
  "ev_type (zero_event\<lparr>ev_type := EV_SYN\<rparr>) = EV_SYN
   \<and> ring_ok initial_world
   \<and> pending_count initial_world + 1 < EVENT_BUFFER_SIZE
   \<and> (\<exists>w1. mouse_handle_event (zero_event\<lparr>ev_type := EV_SYN\<rparr>)
             (\<lparr>mouse_fd = 3, accum_x = 0, accum_y = 0, consecutive_failures = 0\<rparr>, initial_world)
           = Inr (\<lparr>mouse_fd = 3, accum_x = 0, accum_y = 0, consecutive_failures = 0\<rparr>, w1)
          \<and> pending w1 = [zero_event\<lparr>ev_type := EV_SYN\<rparr>]
          \<and> v_g502_out w1 = [zero_event\<lparr>ev_type := EV_SYN\<rparr>]
          \<and> (\<exists>w2. transport_run (replicate (length (pending w1)) Pop) w1 = Inr w2
                 \<and> v_kb_out w2 = [zero_event\<lparr>ev_type := EV_SYN\<rparr>]
                 \<and> v_g502_out w2 = [zero_event\<lparr>ev_type := EV_SYN\<rparr>]))"
proof -
  have h1: "ev_type (zero_event\<lparr>ev_type := EV_SYN\<rparr>) = EV_SYN" by simp
  have h3: "pending_count initial_world + 1 < EVENT_BUFFER_SIZE"
    by (simp add: initial_world_def pending_count_def EVENT_BUFFER_SIZE_def)
  have o: "v_kb_out initial_world = []" "v_g502_out initial_world = []"
    by (simp_all add: initial_world_def)
  show ?thesis
    using syn_to_both_outputs [OF h1 ring_ok_initial h3,
        of "\<lparr>mouse_fd = 3, accum_x = 0, accum_y = 0, consecutive_failures = 0\<rparr>"]
      h3 ring_ok_initial
    by (simp add: pending_initial o) blast
qed

text \<open>
  Claim C7. For an \<^verbatim>\<open>EV_MSC\<close> event of the mouse with code \<^verbatim>\<open>MSC_SCAN\<close>: the value
  \<open>0x90004\<close> of the side button is replaced by \<open>0x70004\<close> and the value \<open>0x90005\<close> of the
  extra button by \<open>0x70005\<close>, and the rewritten event is pushed into the ring and not
  written to the virtual mouse; an event with any other value is written unchanged to the
  virtual mouse and the ring is left alone.
\<close>

theorem scan_codes_rewritten:
  assumes "ev_type ev = EV_MSC" and "ev_code ev = MSC_SCAN"
    and "ring_ok w" and "pending_count w + 1 < EVENT_BUFFER_SIZE"
  shows "SCAN_BTN_SIDE = 0x90004 \<and> SCAN_BTN_EXTRA = 0x90005
         \<and> SCAN_KEY_SHIFT = 0x70004 \<and> SCAN_KEY_CTRL = 0x70005
         \<and> (if ev_value ev = SCAN_BTN_SIDE \<or> ev_value ev = SCAN_BTN_EXTRA then
              (\<exists>w1. mouse_handle_event ev (l, w) = Inr (l, w1) \<and> ring_ok w1
                  \<and> pending w1 = pending w @
                      [ev\<lparr>ev_value := (if ev_value ev = SCAN_BTN_SIDE then SCAN_KEY_SHIFT
                                        else SCAN_KEY_CTRL)\<rparr>]
                  \<and> v_g502_out w1 = v_g502_out w \<and> v_kb_out w1 = v_kb_out w)
            else
              mouse_handle_event ev (l, w) = Inr (l, w\<lparr>v_g502_out := v_g502_out w @ [ev]\<rparr>))"
proof -
  have vals: "SCAN_BTN_SIDE = 0x90004 \<and> SCAN_BTN_EXTRA = 0x90005
         \<and> SCAN_KEY_SHIFT = 0x70004 \<and> SCAN_KEY_CTRL = 0x70005"
    by (simp add: SCAN_BTN_SIDE_def SCAN_BTN_EXTRA_def SCAN_KEY_SHIFT_def SCAN_KEY_CTRL_def)
  have ne: "SCAN_BTN_EXTRA \<noteq> SCAN_BTN_SIDE"
    by (simp add: SCAN_BTN_SIDE_def SCAN_BTN_EXTRA_def)
  let ?k = "ev\<lparr>ev_value := (if ev_value ev = SCAN_BTN_SIDE then SCAN_KEY_SHIFT else SCAN_KEY_CTRL)\<rparr>"
  show ?thesis
  proof (cases "ev_value ev = SCAN_BTN_SIDE \<or> ev_value ev = SCAN_BTN_EXTRA")
    case True
    from send_room [OF assms(3,4), of ?k] obtain w1 where
      s: "send_input_event_to_keyboard ?k w = Inr w1" and r: "ring_ok w1"
      "pending w1 = pending w @ [?k]" "v_g502_out w1 = v_g502_out w" "v_kb_out w1 = v_kb_out w"
      by blast
    have "mouse_handle_event ev (l, w) = Inr (l, w1)"
      using handle_scan [OF assms(1,2), of l w] s True ne by auto
    with r True vals show ?thesis by auto
  next
    case False
    then have "mouse_handle_event ev (l, w) = Inr (l, w\<lparr>v_g502_out := v_g502_out w @ [ev]\<rparr>)"
      using handle_scan [OF assms(1,2), of l w] by (simp add: write_g502_def)
    with False vals show ?thesis by simp
  qed
qed

theorem scan_codes_rewritten_witness:
  "ev_type (zero_event\<lparr>ev_type := EV_MSC, ev_code := MSC_SCAN, ev_value := 0x90005\<rparr>) = EV_MSC
   \<and> ev_code (zero_event\<lparr>ev_type := EV_MSC, ev_code := MSC_SCAN, ev_value := 0x90005\<rparr>) = MSC_SCAN
   \<and> ring_ok initial_world
   \<and> pending_count initial_world + 1 < EVENT_BUFFER_SIZE
   \<and> (\<exists>w1. mouse_handle_event
             (zero_event\<lparr>ev_type := EV_MSC, ev_code := MSC_SCAN, ev_value := 0x90005\<rparr>)
             (\<lparr>mouse_fd = 3, accum_x = 0, accum_y = 0, consecutive_failures = 0\<rparr>, initial_world)
           = Inr (\<lparr>mouse_fd = 3, accum_x = 0, accum_y = 0, consecutive_failures = 0\<rparr>, w1)
          \<and> pending w1 = [zero_event\<lparr>ev_type := EV_MSC, ev_code := MSC_SCAN, ev_value := 0x70005\<rparr>]
          \<and> v_g502_out w1 = [])
   \<and> mouse_handle_event
        (zero_event\<lparr>ev_type := EV_MSC, ev_code := MSC_SCAN, ev_value := 0x90001\<rparr>)
        (\<lparr>mouse_fd = 3, accum_x = 0, accum_y = 0, consecutive_failures = 0\<rparr>, initial_world)
      = Inr (\<lparr>mouse_fd = 3, accum_x = 0, accum_y = 0, consecutive_failures = 0\<rparr>,
             initial_world\<lparr>v_g502_out :=
               [zero_event\<lparr>ev_type := EV_MSC, ev_code := MSC_SCAN, ev_value := 0x90001\<rparr>]\<rparr>)"
proof -
  let ?l = "\<lparr>mouse_fd = 3, accum_x = 0, accum_y = 0, consecutive_failures = 0\<rparr>"
  let ?a = "zero_event\<lparr>ev_type := EV_MSC, ev_code := MSC_SCAN, ev_value := 0x90005\<rparr>"
  let ?b = "zero_event\<lparr>ev_type := EV_MSC, ev_code := MSC_SCAN, ev_value := 0x90001\<rparr>"
  have a: "ev_type ?a = EV_MSC" "ev_code ?a = MSC_SCAN" by simp_all
  have b: "ev_type ?b = EV_MSC" "ev_code ?b = MSC_SCAN" by simp_all
  have h3: "pending_count initial_world + 1 < EVENT_BUFFER_SIZE"
    by (simp add: initial_world_def pending_count_def EVENT_BUFFER_SIZE_def)
  have o: "v_kb_out initial_world = []" "v_g502_out initial_world = []"
    by (simp_all add: initial_world_def)
  have "\<exists>w1. mouse_handle_event ?a (?l, initial_world) = Inr (?l, w1) \<and> ring_ok w1
          \<and> pending w1 = pending initial_world @ [?a\<lparr>ev_value := SCAN_KEY_CTRL\<rparr>]
          \<and> v_g502_out w1 = v_g502_out initial_world \<and> v_kb_out w1 = v_kb_out initial_world"
    using scan_codes_rewritten [OF a ring_ok_initial h3, of ?l]
    by (simp add: SCAN_BTN_SIDE_def SCAN_BTN_EXTRA_def)
  then obtain w1 where "mouse_handle_event ?a (?l, initial_world) = Inr (?l, w1)"
    "pending w1 = pending initial_world @ [?a\<lparr>ev_value := SCAN_KEY_CTRL\<rparr>]"
    "v_g502_out w1 = v_g502_out initial_world" by blast
  then have ra: "\<exists>w1. mouse_handle_event ?a (?l, initial_world) = Inr (?l, w1)
          \<and> pending w1 = [zero_event\<lparr>ev_type := EV_MSC, ev_code := MSC_SCAN, ev_value := 0x70005\<rparr>]
          \<and> v_g502_out w1 = []"
    by (intro exI [of _ w1]) (simp add: pending_initial o SCAN_KEY_CTRL_def)
  have "mouse_handle_event ?b (?l, initial_world)
          = Inr (?l, initial_world\<lparr>v_g502_out := v_g502_out initial_world @ [?b]\<rparr>)"
    using scan_codes_rewritten [OF b ring_ok_initial h3, of ?l]
    by (simp add: SCAN_BTN_SIDE_def SCAN_BTN_EXTRA_def)
  then have rb: "mouse_handle_event ?b (?l, initial_world)
              = Inr (?l, initial_world\<lparr>v_g502_out := [?b]\<rparr>)"
    by (simp add: o)
  show ?thesis using a ring_ok_initial h3 ra rb by blast
qed

section \<open>Claims about purge, startup and thread exit\<close>


lemma mouse_iter_fail:
  assumes "mouse_fd l < 0 \<or> io_read io = None"
  shows "\<exists>l1. mouse_loop_iter io (l, w) = Inr (l1, w)
              \<and> mouse_fd l1 = find_open_and_grab_device (io_probe io)"
  using assms by (auto simp: mouse_loop_iter_def reopen_device_def Let_def)


lemma keyboard_iter_fail:
  assumes "kb_fd l < 0 \<or> io_read io = None"
  shows "\<exists>l1. keyboard_loop_iter io (l, w) = Inr (l1, clear_keyboard_buffer w)
              \<and> kb_fd l1 = find_open_and_grab_device (io_probe io)"
  using assms by (auto simp: keyboard_loop_iter_def reopen_device_def Let_def)




lemma main_started:
  "startup_ok e \<Longrightarrow>
   main e = Inr \<lparr>mouse_thread = mouse_thread_start (mouse_start_probe e),
                 kb_input_thread = keyboard_thread_start (kb_start_probe e),
                 shared = initial_world\<rparr>"
  by (simp add: main_def startup_ok_def)

lemma main_not_started:
  "\<not> startup_ok e \<Longrightarrow> main e = Inl (ProcessExit 1)"
  by (simp add: main_def startup_ok_def)

lemma main_exit_iff:
  "main e = Inl h \<longleftrightarrow> h = ProcessExit 1 \<and> \<not> startup_ok e"
proof (cases "startup_ok e")
  case True
  then show ?thesis by (simp add: main_started)
next
  case False
  then show ?thesis using main_not_started [OF False] by auto
qed

lemma send_exit:
  "send_input_event_to_keyboard ev w = Inl h \<Longrightarrow>
   h = ProcessExit 1 \<and> (head w + 1) mod EVENT_BUFFER_SIZE = tail w"
  by (auto simp: send_input_event_to_keyboard_def Let_def split: if_splits option.splits)


lemma handle_other_key:
  assumes "ev_type ev = EV_KEY" "\<not> (ev_code ev = BTN_SIDE \<or> ev_code ev = BTN_EXTRA)"
  shows "mouse_handle_event ev (l, w) = Inr (l, write_g502 ev w)"
  using assms by (simp add: mouse_handle_event_def)

lemma handle_rel:
  assumes "ev_type ev = EV_REL"
  shows "mouse_handle_event ev (l, w) =
           (if ev_code ev = REL_X then
              Inr (l\<lparr>accum_x := fst (scale_axis (accum_x l) (ev_value ev))\<rparr>,
                   write_g502 (ev\<lparr>ev_value := snd (scale_axis (accum_x l) (ev_value ev))\<rparr>) w)
            else if ev_code ev = REL_Y then
              Inr (l\<lparr>accum_y := fst (scale_axis (accum_y l) (ev_value ev))\<rparr>,
                   write_g502 (ev\<lparr>ev_value := snd (scale_axis (accum_y l) (ev_value ev))\<rparr>) w)
            else Inr (l, write_g502 ev w))"
  using assms by (simp add: mouse_handle_event_def event_type_distinct split: prod.split)

lemma handle_other_msc:
  assumes "ev_type ev = EV_MSC" "ev_code ev \<noteq> MSC_SCAN"
  shows "mouse_handle_event ev (l, w) = Inr (l, write_g502 ev w)"
  using assms by (simp add: mouse_handle_event_def event_type_distinct)

lemma handle_default:
  assumes "ev_type ev \<noteq> EV_KEY" "ev_type ev \<noteq> EV_REL" "ev_type ev \<noteq> EV_MSC" "ev_type ev \<noteq> EV_SYN"
  shows "mouse_handle_event ev (l, w) = Inr (l, write_g502 ev w)"
  using assms by (simp add: mouse_handle_event_def)

lemma handle_exit:
  assumes "mouse_handle_event ev (l, w) = Inl h"
  shows "h = ProcessExit 1 \<and> (head w + 1) mod EVENT_BUFFER_SIZE = tail w"
proof -
  have "\<exists>ev1. send_input_event_to_keyboard ev1 w = Inl h"
  proof (cases "ev_type ev = EV_KEY")
    case True
    show ?thesis
    proof (cases "ev_code ev = BTN_SIDE \<or> ev_code ev = BTN_EXTRA")
      case c: True
      from assms handle_side_button [OF True c, of l w] show ?thesis
        by (auto split: sum.splits)
    next
      case c: False
      from assms handle_other_key [OF True c, of l w] show ?thesis by simp
    qed
  next
    case nk: False
    show ?thesis
    proof (cases "ev_type ev = EV_REL")
      case True
      from assms handle_rel [OF True, of l w] show ?thesis by (simp split: if_splits)
    next
      case nr: False
      show ?thesis
      proof (cases "ev_type ev = EV_MSC")
        case True
        show ?thesis
        proof (cases "ev_code ev = MSC_SCAN")
          case c: True
          from assms handle_scan [OF True c, of l w] show ?thesis
            by (auto split: sum.splits if_splits)
        next
          case c: False
          from assms handle_other_msc [OF True c, of l w] show ?thesis by simp
        qed
      next
        case nm: False
        show ?thesis
        proof (cases "ev_type ev = EV_SYN")
          case True
          from assms handle_syn [OF True, of l w] show ?thesis
            by (auto split: sum.splits)
        next
          case False
          from assms handle_default [OF nk nr nm False, of l w] show ?thesis by simp
        qed
      qed
    qed
  qed
  then obtain ev1 where "send_input_event_to_keyboard ev1 w = Inl h" by blast
  then show ?thesis by (rule send_exit)
qed

lemma mouse_iter_exit:
  assumes "mouse_loop_iter io (l, w) = Inl h"
  shows "\<exists>ev. io_read io = Some ev \<and> mouse_handle_event ev (l\<lparr>consecutive_failures := 0\<rparr>, w) = Inl h"
  using assms
  by (cases "io_read io"; cases "mouse_fd l < 0")
     (auto simp: mouse_loop_iter_def split: prod.splits if_splits)

lemma keyboard_iter_exit:
  assumes "keyboard_loop_iter io (l, w) = Inl h"
  shows "\<exists>ev. io_read io = Some ev \<and> send_input_event_to_keyboard ev w = Inl h"
  using assms
  by (cases "io_read io"; cases "kb_fd l < 0")
     (auto simp: keyboard_loop_iter_def Let_def split: prod.splits if_splits sum.splits)

lemma daemon_step_exit:
  assumes "daemon_step a d = Inl h"
  shows "h = ProcessExit 1 \<and> (head (shared d) + 1) mod EVENT_BUFFER_SIZE = tail (shared d)
         \<and> (\<exists>io ev. (a = MouseIter io \<or> a = KbInputIter io) \<and> io_read io = Some ev)"
proof (cases a)
  case (MouseIter io)
  with assms obtain l where "mouse_loop_iter io (l, shared d) = Inl h"
    by (auto simp: daemon_step_def split: option.splits sum.splits)
  from mouse_iter_exit [OF this] obtain ev where
    "io_read io = Some ev" "mouse_handle_event ev (l\<lparr>consecutive_failures := 0\<rparr>, shared d) = Inl h"
    by blast
  with handle_exit [OF this(2)] MouseIter show ?thesis by auto
next
  case (KbInputIter io)
  with assms obtain l where "keyboard_loop_iter io (l, shared d) = Inl h"
    by (auto simp: daemon_step_def split: option.splits sum.splits)
  from keyboard_iter_exit [OF this] obtain ev where
    "io_read io = Some ev" "send_input_event_to_keyboard ev (shared d) = Inl h" by blast
  with send_exit [OF this(2)] KbInputIter show ?thesis by auto
next
  case KbOutputIter
  with assms show ?thesis by (auto simp: daemon_step_def split: option.splits)
qed


lemma daemon_step_mouse:
  "mouse_thread d = Some l \<Longrightarrow> mouse_loop_iter io (l, shared d) = Inr (l1, w1) \<Longrightarrow>
   daemon_step (MouseIter io) d = Inr (d\<lparr>mouse_thread := Some l1, shared := w1\<rparr>)"
  by (simp add: daemon_step_def)

lemma daemon_step_mouse_gone:
  "mouse_thread d = None \<Longrightarrow> daemon_step (MouseIter io) d = Inr d"
  by (simp add: daemon_step_def)

lemma daemon_step_keyboard:
  "kb_input_thread d = Some l \<Longrightarrow> keyboard_loop_iter io (l, shared d) = Inr (l1, w1) \<Longrightarrow>
   daemon_step (KbInputIter io) d = Inr (d\<lparr>kb_input_thread := Some l1, shared := w1\<rparr>)"
  by (simp add: daemon_step_def)

lemma daemon_step_keyboard_gone:
  "kb_input_thread d = None \<Longrightarrow> daemon_step (KbInputIter io) d = Inr d"
  by (simp add: daemon_step_def)


lemma daemon_step_read_fails:
  assumes "(a = MouseIter io \<or> a = KbInputIter io) \<and> io_read io = None"
  shows "\<exists>d1. daemon_step a d = Inr d1
              \<and> (mouse_thread d1 = None \<longleftrightarrow> mouse_thread d = None)
              \<and> (kb_input_thread d1 = None \<longleftrightarrow> kb_input_thread d = None)"
proof -
  have r: "io_read io = None" using assms by simp
  consider "a = MouseIter io" | "a = KbInputIter io" using assms by blast
  then show ?thesis
  proof cases
    case 1
    show ?thesis
    proof (cases "mouse_thread d")
      case None
      then have "daemon_step a d = Inr d" using 1 by (simp add: daemon_step_mouse_gone)
      then show ?thesis by simp
    next
      case (Some l)
      have "mouse_fd l < 0 \<or> io_read io = None" using r by simp
      from mouse_iter_fail [OF this, of "shared d"] obtain l1 where
        "mouse_loop_iter io (l, shared d) = Inr (l1, shared d)" by blast
      from daemon_step_mouse [OF Some this] have
        "daemon_step a d = Inr (d\<lparr>mouse_thread := Some l1, shared := shared d\<rparr>)"
        using 1 by simp
      then show ?thesis using Some by simp
    qed
  next
    case 2
    show ?thesis
    proof (cases "kb_input_thread d")
      case None
      then have "daemon_step a d = Inr d" using 2 by (simp add: daemon_step_keyboard_gone)
      then show ?thesis by simp
    next
      case (Some l)
      have "kb_fd l < 0 \<or> io_read io = None" using r by simp
      from keyboard_iter_fail [OF this, of "shared d"] obtain l1 where
        "keyboard_loop_iter io (l, shared d) = Inr (l1, clear_keyboard_buffer (shared d))" by blast
      from daemon_step_keyboard [OF Some this] have
        "daemon_step a d = Inr (d\<lparr>kb_input_thread := Some l1,
                                  shared := clear_keyboard_buffer (shared d)\<rparr>)"
        using 2 by simp
      then show ?thesis using Some by simp
    qed
  qed
qed

lemma daemon_run_read_fails:
  assumes "\<forall>a \<in> set fs. \<exists>io. (a = MouseIter io \<or> a = KbInputIter io) \<and> io_read io = None"
  shows "\<exists>d1. daemon_run fs d = Inr d1
              \<and> (mouse_thread d1 = None \<longleftrightarrow> mouse_thread d = None)
              \<and> (kb_input_thread d1 = None \<longleftrightarrow> kb_input_thread d = None)"
  using assms
proof (induction fs arbitrary: d)
  case Nil
  then show ?case by simp
next
  case (Cons a fs)
  have "\<exists>io. (a = MouseIter io \<or> a = KbInputIter io) \<and> io_read io = None"
    using Cons.prems by simp
  then obtain io where "(a = MouseIter io \<or> a = KbInputIter io) \<and> io_read io = None" ..
  from daemon_step_read_fails [OF this, of d] obtain d1 where
    s: "daemon_step a d = Inr d1" and m1: "mouse_thread d1 = None \<longleftrightarrow> mouse_thread d = None"
    and k1: "kb_input_thread d1 = None \<longleftrightarrow> kb_input_thread d = None" by auto
  have "\<forall>a \<in> set fs. \<exists>io. (a = MouseIter io \<or> a = KbInputIter io) \<and> io_read io = None"
    using Cons.prems by simp
  from Cons.IH [OF this, of d1] obtain d2 where
    r: "daemon_run fs d1 = Inr d2" and m2: "mouse_thread d2 = None \<longleftrightarrow> mouse_thread d1 = None"
    and k2: "kb_input_thread d2 = None \<longleftrightarrow> kb_input_thread d1 = None" by auto
  have "daemon_run (a # fs) d = Inr d2" using s r by simp
  moreover have "mouse_thread d2 = None \<longleftrightarrow> mouse_thread d = None" using m1 m2 by simp
  moreover have "kb_input_thread d2 = None \<longleftrightarrow> kb_input_thread d = None" using k1 k2 by simp
  ultimately show ?case by (intro exI [of _ d2] conjI)
qed

text \<open>
  Claim C8, as amended. When \<^verbatim>\<open>main\<close> cannot find the mouse or the keyboard it returns 1
  at once, whatever a later lookup would answer. \<^verbatim>\<open>main\<close> returns, always with 1, exactly
  when one of its guards fails: the two lookups, the creation of either virtual device, the
  semaphore, the creation of a thread. Once the threads run, an iteration ends the process
  only with status 1, on a full ring, while pushing an event that was read successfully. A
  failed read never ends the process or the thread: the thread looks the device up again,
  the keyboard thread after purging the ring, and any number of failed reads in a row leaves
  the daemon running with the same threads.
\<close>

theorem startup_and_read_failures:
  "(\<not> dev_found (main_g502_probe e) \<or> \<not> dev_found (main_kb_probe e) \<longrightarrow>
      main e = Inl (ProcessExit 1))
   \<and> (main e = Inl h \<longleftrightarrow> h = ProcessExit 1 \<and> \<not> startup_ok e)
   \<and> (daemon_step a d = Inl h \<longrightarrow>
        h = ProcessExit 1 \<and> (head (shared d) + 1) mod EVENT_BUFFER_SIZE = tail (shared d)
        \<and> (\<exists>io ev. (a = MouseIter io \<or> a = KbInputIter io) \<and> io_read io = Some ev))
   \<and> (mouse_fd l < 0 \<or> io_read io = None \<longrightarrow>
        (\<exists>l1. mouse_loop_iter io (l, w) = Inr (l1, w)
             \<and> mouse_fd l1 = find_open_and_grab_device (io_probe io)))
   \<and> (kb_fd k < 0 \<or> io_read io = None \<longrightarrow>
        (\<exists>k1. keyboard_loop_iter io (k, w) = Inr (k1, clear_keyboard_buffer w)
             \<and> kb_fd k1 = find_open_and_grab_device (io_probe io)))
   \<and> ((\<forall>a \<in> set fs. \<exists>io. (a = MouseIter io \<or> a = KbInputIter io) \<and> io_read io = None) \<longrightarrow>
        (\<exists>d1. daemon_run fs d = Inr d1
             \<and> (mouse_thread d1 = None \<longleftrightarrow> mouse_thread d = None)
             \<and> (kb_input_thread d1 = None \<longleftrightarrow> kb_input_thread d = None)))"
proof (intro conjI impI)
  assume "\<not> dev_found (main_g502_probe e) \<or> \<not> dev_found (main_kb_probe e)"
  then have "\<not> startup_ok e" by (auto simp: startup_ok_def)
  then show "main e = Inl (ProcessExit 1)" by (rule main_not_started)
next
  show "main e = Inl h \<longleftrightarrow> h = ProcessExit 1 \<and> \<not> startup_ok e" by (rule main_exit_iff)
next
  assume "daemon_step a d = Inl h"
  from daemon_step_exit [OF this]
  show "h = ProcessExit 1" "(head (shared d) + 1) mod EVENT_BUFFER_SIZE = tail (shared d)"
    "\<exists>io ev. (a = MouseIter io \<or> a = KbInputIter io) \<and> io_read io = Some ev" by simp_all
next
  assume "mouse_fd l < 0 \<or> io_read io = None"
  then show "\<exists>l1. mouse_loop_iter io (l, w) = Inr (l1, w)
             \<and> mouse_fd l1 = find_open_and_grab_device (io_probe io)"
    by (rule mouse_iter_fail)
next
  assume "kb_fd k < 0 \<or> io_read io = None"
  then show "\<exists>k1. keyboard_loop_iter io (k, w) = Inr (k1, clear_keyboard_buffer w)
             \<and> kb_fd k1 = find_open_and_grab_device (io_probe io)"
    by (rule keyboard_iter_fail)
next
  assume "\<forall>a \<in> set fs. \<exists>io. (a = MouseIter io \<or> a = KbInputIter io) \<and> io_read io = None"
  then show "\<exists>d1. daemon_run fs d = Inr d1
             \<and> (mouse_thread d1 = None \<longleftrightarrow> mouse_thread d = None)
             \<and> (kb_input_thread d1 = None \<longleftrightarrow> kb_input_thread d = None)"
    by (rule daemon_run_read_fails)
qed

text \<open>
  Claim C8 as stated fails: with both devices found, \<^verbatim>\<open>main\<close> still returns 1 when
  \<^verbatim>\<open>/dev/uinput\<close> cannot be opened for the virtual mouse, an exit that is neither a failed
  lookup nor a ring overflow.
\<close>

theorem main_exit_without_locate_failure:
  "dev_found (main_g502_probe
      \<lparr>main_g502_probe = \<lparr>dev_found = True, dev_open_fd = 3, dev_grab_ok = True\<rparr>,
       main_kb_probe = \<lparr>dev_found = True, dev_open_fd = 4, dev_grab_ok = True\<rparr>,
       uinput_g502_open = False, g502_key_bits = True, g502_rel_bits = True,
       g502_dev_create = True, uinput_kb_open = True, kb_ev_bit = True, kb_msc_bits = True,
       kb_dev_create = True, sem_init_ok = True, create_kb_output = True,
       create_kb_input = True, create_mouse_io = True,
       kb_start_probe = \<lparr>dev_found = True, dev_open_fd = 4, dev_grab_ok = True\<rparr>,
       mouse_start_probe = \<lparr>dev_found = True, dev_open_fd = 3, dev_grab_ok = True\<rparr>\<rparr>)
   \<and> dev_found (main_kb_probe
      \<lparr>main_g502_probe = \<lparr>dev_found = True, dev_open_fd = 3, dev_grab_ok = True\<rparr>,
       main_kb_probe = \<lparr>dev_found = True, dev_open_fd = 4, dev_grab_ok = True\<rparr>,
       uinput_g502_open = False, g502_key_bits = True, g502_rel_bits = True,
       g502_dev_create = True, uinput_kb_open = True, kb_ev_bit = True, kb_msc_bits = True,
       kb_dev_create = True, sem_init_ok = True, create_kb_output = True,
       create_kb_input = True, create_mouse_io = True,
       kb_start_probe = \<lparr>dev_found = True, dev_open_fd = 4, dev_grab_ok = True\<rparr>,
       mouse_start_probe = \<lparr>dev_found = True, dev_open_fd = 3, dev_grab_ok = True\<rparr>\<rparr>)
   \<and> main
      \<lparr>main_g502_probe = \<lparr>dev_found = True, dev_open_fd = 3, dev_grab_ok = True\<rparr>,
       main_kb_probe = \<lparr>dev_found = True, dev_open_fd = 4, dev_grab_ok = True\<rparr>,
       uinput_g502_open = False, g502_key_bits = True, g502_rel_bits = True,
       g502_dev_create = True, uinput_kb_open = True, kb_ev_bit = True, kb_msc_bits = True,
       kb_dev_create = True, sem_init_ok = True, create_kb_output = True,
       create_kb_input = True, create_mouse_io = True,
       kb_start_probe = \<lparr>dev_found = True, dev_open_fd = 4, dev_grab_ok = True\<rparr>,
       mouse_start_probe = \<lparr>dev_found = True, dev_open_fd = 3, dev_grab_ok = True\<rparr>\<rparr>
     = Inl (ProcessExit 1)"
  by (simp add: main_def)

theorem startup_and_read_failures_witness:
  "\<not> dev_found (main_g502_probe
      \<lparr>main_g502_probe = \<lparr>dev_found = False, dev_open_fd = - 1, dev_grab_ok = False\<rparr>,
       main_kb_probe = \<lparr>dev_found = True, dev_open_fd = 4, dev_grab_ok = True\<rparr>,
       uinput_g502_open = True, g502_key_bits = True, g502_rel_bits = True,
       g502_dev_create = True, uinput_kb_open = True, kb_ev_bit = True, kb_msc_bits = True,
       kb_dev_create = True, sem_init_ok = True, create_kb_output = True,
       create_kb_input = True, create_mouse_io = True,
       kb_start_probe = \<lparr>dev_found = True, dev_open_fd = 4, dev_grab_ok = True\<rparr>,
       mouse_start_probe = \<lparr>dev_found = True, dev_open_fd = 3, dev_grab_ok = True\<rparr>\<rparr>)
   \<and> main
      \<lparr>main_g502_probe = \<lparr>dev_found = False, dev_open_fd = - 1, dev_grab_ok = False\<rparr>,
       main_kb_probe = \<lparr>dev_found = True, dev_open_fd = 4, dev_grab_ok = True\<rparr>,
       uinput_g502_open = True, g502_key_bits = True, g502_rel_bits = True,
       g502_dev_create = True, uinput_kb_open = True, kb_ev_bit = True, kb_msc_bits = True,
       kb_dev_create = True, sem_init_ok = True, create_kb_output = True,
       create_kb_input = True, create_mouse_io = True,
       kb_start_probe = \<lparr>dev_found = True, dev_open_fd = 4, dev_grab_ok = True\<rparr>,
       mouse_start_probe = \<lparr>dev_found = True, dev_open_fd = 3, dev_grab_ok = True\<rparr>\<rparr>
     = Inl (ProcessExit 1)
   \<and> daemon_step
        (MouseIter \<lparr>io_read = Some zero_event,
                    io_probe = \<lparr>dev_found = True, dev_open_fd = 3, dev_grab_ok = True\<rparr>\<rparr>)
        \<lparr>mouse_thread = Some \<lparr>mouse_fd = 3, accum_x = 0, accum_y = 0, consecutive_failures = 0\<rparr>,
         kb_input_thread = Some \<lparr>kb_fd = 4, kb_consecutive_failures = 0\<rparr>,
         shared = initial_world\<lparr>head := 262143, kb_event_sem := 262143\<rparr>\<rparr>
     = Inl (ProcessExit 1)
   \<and> (\<exists>l1. mouse_loop_iter
              \<lparr>io_read = None, io_probe = \<lparr>dev_found = True, dev_open_fd = 5, dev_grab_ok = True\<rparr>\<rparr>
              (\<lparr>mouse_fd = 3, accum_x = 0, accum_y = 0, consecutive_failures = 0\<rparr>, initial_world)
            = Inr (l1, initial_world)
          \<and> mouse_fd l1 = 5)
   \<and> (\<exists>k1. keyboard_loop_iter
              \<lparr>io_read = None, io_probe = \<lparr>dev_found = True, dev_open_fd = 5, dev_grab_ok = True\<rparr>\<rparr>
              (\<lparr>kb_fd = 4, kb_consecutive_failures = 0\<rparr>, initial_world)
            = Inr (k1, clear_keyboard_buffer initial_world)
          \<and> kb_fd k1 = 5)
   \<and> (\<exists>d1. daemon_run
              [MouseIter \<lparr>io_read = None,
                          io_probe = \<lparr>dev_found = False, dev_open_fd = - 1, dev_grab_ok = False\<rparr>\<rparr>,
               KbInputIter \<lparr>io_read = None,
                            io_probe = \<lparr>dev_found = False, dev_open_fd = - 1, dev_grab_ok = False\<rparr>\<rparr>,
               MouseIter \<lparr>io_read = None,
                          io_probe = \<lparr>dev_found = False, dev_open_fd = - 1, dev_grab_ok = False\<rparr>\<rparr>]
              \<lparr>mouse_thread = Some \<lparr>mouse_fd = 3, accum_x = 0, accum_y = 0, consecutive_failures = 0\<rparr>,
               kb_input_thread = Some \<lparr>kb_fd = 4, kb_consecutive_failures = 0\<rparr>,
               shared = initial_world\<lparr>head := 262143, kb_event_sem := 262143\<rparr>\<rparr>
            = Inr d1
          \<and> mouse_thread d1 \<noteq> None \<and> kb_input_thread d1 \<noteq> None)"
proof -
  let ?e = "\<lparr>main_g502_probe = \<lparr>dev_found = False, dev_open_fd = - 1, dev_grab_ok = False\<rparr>,
       main_kb_probe = \<lparr>dev_found = True, dev_open_fd = 4, dev_grab_ok = True\<rparr>,
       uinput_g502_open = True, g502_key_bits = True, g502_rel_bits = True,
       g502_dev_create = True, uinput_kb_open = True, kb_ev_bit = True, kb_msc_bits = True,
       kb_dev_create = True, sem_init_ok = True, create_kb_output = True,
       create_kb_input = True, create_mouse_io = True,
       kb_start_probe = \<lparr>dev_found = True, dev_open_fd = 4, dev_grab_ok = True\<rparr>,
       mouse_start_probe = \<lparr>dev_found = True, dev_open_fd = 3, dev_grab_ok = True\<rparr>\<rparr>"
  let ?lm = "\<lparr>mouse_fd = 3, accum_x = 0, accum_y = 0, consecutive_failures = 0\<rparr>"
  let ?lk = "\<lparr>kb_fd = 4, kb_consecutive_failures = 0\<rparr>"
  let ?full = "initial_world\<lparr>head := 262143, kb_event_sem := 262143\<rparr>"
  let ?d = "\<lparr>mouse_thread = Some ?lm, kb_input_thread = Some ?lk, shared = ?full\<rparr>"
  let ?a = "MouseIter \<lparr>io_read = Some zero_event,
                    io_probe = \<lparr>dev_found = True, dev_open_fd = 3, dev_grab_ok = True\<rparr>\<rparr>"
  let ?io = "\<lparr>io_read = None, io_probe = \<lparr>dev_found = True, dev_open_fd = 5, dev_grab_ok = True\<rparr>\<rparr>"
  let ?no = "\<lparr>io_read = None, io_probe = \<lparr>dev_found = False, dev_open_fd = - 1, dev_grab_ok = False\<rparr>\<rparr>"
  let ?fs = "[MouseIter ?no, KbInputIter ?no, MouseIter ?no]"
  note th = startup_and_read_failures [where e = ?e and h = "ProcessExit 1" and a = ?a
      and d = ?d and l = ?lm and io = ?io and w = initial_world and k = ?lk and fs = ?fs]
  have c1: "\<not> dev_found (main_g502_probe ?e)" by simp
  then have m: "main ?e = Inl (ProcessExit 1)" using th by blast
  have syn: "ev_type zero_event = EV_SYN" by (simp add: zero_event_def EV_SYN_def)
  have full: "(head ?full + 1) mod EVENT_BUFFER_SIZE = tail ?full"
    by (simp add: initial_world_def EVENT_BUFFER_SIZE_def)
  have "mouse_handle_event zero_event (?lm, ?full) = Inl (ProcessExit 1)"
    using handle_syn [OF syn, of ?lm ?full] send_full [OF full, of zero_event] by simp
  then have "mouse_loop_iter \<lparr>io_read = Some zero_event,
                    io_probe = \<lparr>dev_found = True, dev_open_fd = 3, dev_grab_ok = True\<rparr>\<rparr> (?lm, ?full)
               = Inl (ProcessExit 1)"
    by (simp add: mouse_loop_iter_def)
  then have st: "daemon_step ?a ?d = Inl (ProcessExit 1)"
    by (simp add: daemon_step_def)
  have c4: "mouse_fd ?lm < 0 \<or> io_read ?io = None" by simp
  have c5: "kb_fd ?lk < 0 \<or> io_read ?io = None" by simp
  have fg: "find_open_and_grab_device (io_probe ?io) = 5"
    by (simp add: find_open_and_grab_device_def open_and_grab_device_def)
  have r4: "\<exists>l1. mouse_loop_iter ?io (?lm, initial_world) = Inr (l1, initial_world) \<and> mouse_fd l1 = 5"
    using th c4 fg by simp
  have r5: "\<exists>k1. keyboard_loop_iter ?io (?lk, initial_world) = Inr (k1, clear_keyboard_buffer initial_world)
             \<and> kb_fd k1 = 5"
    using th c5 fg by simp
  have c6: "\<forall>a \<in> set ?fs. \<exists>io. (a = MouseIter io \<or> a = KbInputIter io) \<and> io_read io = None"
    by simp
  have "\<exists>d1. daemon_run ?fs ?d = Inr d1
             \<and> (mouse_thread d1 = None \<longleftrightarrow> mouse_thread ?d = None)
             \<and> (kb_input_thread d1 = None \<longleftrightarrow> kb_input_thread ?d = None)"
    using th c6 by blast
  then have r6: "\<exists>d1. daemon_run ?fs ?d = Inr d1 \<and> mouse_thread d1 \<noteq> None \<and> kb_input_thread d1 \<noteq> None"
    by simp
  show ?thesis
    by (rule conjI [OF c1 conjI [OF m conjI [OF st conjI [OF r4 conjI [OF r5 r6]]]]])
qed











section \<open>Claims about motion scaling\<close>

lemma round_half_even_of_int: "round_half_even (of_int q) = q"
  by (simp add: round_half_even_def)

lemma fp_round_exact:
  assumes y: "\<bar>x\<bar> * 2 ^ k = of_int (m * 2 ^ j)" and m: "0 \<le> m" "m < 2 ^ p"
  shows "fp_round p k x = x"
proof (cases "m = 0")
  case True
  with y have "x = 0" by simp
  then show ?thesis by (simp add: fp_round_def round_half_even_def)
next
  case False
  with m have mpos: "0 < m" by simp
  define e where "e = bitlen (m * 2 ^ j) - int p"
  define u :: rat where "u = (if e \<le> 0 then 1 else 2 ^ nat e)"
  have bl: "bitlen (m * 2 ^ j) = bitlen m + int j" using mpos by (rule bitlen_pow2)
  have "bitlen m \<le> int p" using m by (simp add: bitlen_le_iff_power)
  then have ej: "e \<le> int j" by (simp add: e_def bl)
  have "\<exists>q::int. (of_int (m * 2 ^ j) :: rat) / u = of_int q"
  proof (cases "e \<le> 0")
    case True
    have "(of_int (m * 2 ^ j) :: rat) / 1 = of_int (m * 2 ^ j)" by simp
    with True show ?thesis unfolding u_def by (simp only: if_True) blast
  next
    case False
    then have "nat e \<le> j" using ej by simp
    then obtain d where j: "j = nat e + d" using le_Suc_ex by blast
    have "(of_int (m * 2 ^ j) :: rat) / u = of_int (m * 2 ^ d)"
      using False by (simp add: u_def j power_add)
    then show ?thesis by blast
  qed
  then obtain q :: int where q: "(of_int (m * 2 ^ j) :: rat) / u = of_int q" by blast
  have upos: "u \<noteq> 0" by (simp add: u_def)
  have qu: "of_int q * u = (of_int (m * 2 ^ j) :: rat)" using q upos by (simp add: field_simps)
  have "fp_round p k x = sgn x * of_int (round_half_even (of_int (m * 2 ^ j) / u)) * u / 2 ^ k"
    unfolding fp_round_def Let_def y u_def e_def by (simp only: floor_of_int)
  also have "\<dots> = sgn x * (of_int q * u) / 2 ^ k"
    by (simp only: q round_half_even_of_int)
  also have "\<dots> = sgn x * (\<bar>x\<bar> * 2 ^ k) / 2 ^ k" by (simp only: qu y)
  also have "\<dots> = x" by (simp add: mult_sgn_abs)
  finally show ?thesis .
qed

lemma to_double_half:
  assumes "\<bar>h\<bar> < 2 ^ 53"
  shows "to_double (of_int h / 2) = of_int h / 2"
proof -
  have "\<bar>of_int h / 2 :: rat\<bar> * 2 ^ 1074 = of_int (\<bar>h\<bar> * 2 ^ 1073)"
    by simp
  from fp_round_exact [OF this _ assms] show ?thesis
    by (simp add: to_double_def)
qed

lemma to_float_half:
  assumes "\<bar>h\<bar> \<le> 2 ^ 24"
  shows "to_float (of_int h / 2) = of_int h / 2"
proof (cases "\<bar>h\<bar> < 2 ^ 24")
  case True
  have "\<bar>of_int h / 2 :: rat\<bar> * 2 ^ 149 = of_int (\<bar>h\<bar> * 2 ^ 148)"
    by simp
  from fp_round_exact [OF this _ True] show ?thesis
    by (simp add: to_float_def)
next
  case False
  with assms have h: "\<bar>h\<bar> = 2 ^ 24" by simp
  have "\<bar>of_int h / 2 :: rat\<bar> * 2 ^ 149 = of_int \<bar>h\<bar> * 2 ^ 148"
    by simp
  also have "\<dots> = of_int (1 * 2 ^ 172)" by (simp add: h)
  finally have "\<bar>of_int h / 2 :: rat\<bar> * 2 ^ 149 = of_int (1 * 2 ^ 172)" .
  from fp_round_exact [OF this, of 24] show ?thesis
    by (simp add: to_float_def)
qed

lemma to_double_int:
  assumes "\<bar>n\<bar> < 2 ^ 52"
  shows "to_double (of_int n) = of_int n"
proof -
  have "\<bar>2 * n\<bar> < 2 ^ 53" using assms by simp
  from to_double_half [OF this] show ?thesis by simp
qed

lemma to_float_int:
  assumes "\<bar>n\<bar> \<le> 2 ^ 23"
  shows "to_float (of_int n) = of_int n"
proof -
  have "\<bar>2 * n\<bar> \<le> 2 ^ 24" using assms by simp
  from to_float_half [OF this] show ?thesis by simp
qed

lemma roundf_near: "\<bar>of_int (roundf x) - x\<bar> \<le> 1 / 2"
proof (cases "0 \<le> x")
  case True
  have "of_int \<lfloor>x + 1 / 2\<rfloor> \<le> x + 1 / 2" "x + 1 / 2 < of_int \<lfloor>x + 1 / 2\<rfloor> + 1"
    by linarith+
  then have "\<bar>of_int \<lfloor>x + 1 / 2\<rfloor> - x\<bar> \<le> 1 / 2" by linarith
  with True show ?thesis by (simp add: roundf_def)
next
  case False
  have "of_int \<lfloor>- x + 1 / 2\<rfloor> \<le> - x + 1 / 2" "- x + 1 / 2 < of_int \<lfloor>- x + 1 / 2\<rfloor> + 1"
    by linarith+
  then have "\<bar>of_int (- \<lfloor>- x + 1 / 2\<rfloor>) - x\<bar> \<le> 1 / 2" by (simp only: of_int_minus)
  with False show ?thesis by (simp only: roundf_def if_False)
qed

lemma roundf_bounded:
  assumes "\<bar>x\<bar> \<le> of_int b"
  shows "\<bar>roundf x\<bar> \<le> b"
proof (cases "0 \<le> x")
  case True
  have "x + 1 / 2 < of_int (b + 1)" using assms by simp
  then have "\<lfloor>x + 1 / 2\<rfloor> < b + 1" by (simp only: floor_less_iff)
  moreover have "0 \<le> \<lfloor>x + 1 / 2\<rfloor>" using True by simp
  ultimately have "\<bar>\<lfloor>x + 1 / 2\<rfloor>\<bar> \<le> b" by simp
  with True show ?thesis by (simp only: roundf_def if_True)
next
  case False
  have "- x + 1 / 2 < of_int (b + 1)" using assms by simp
  then have "\<lfloor>- x + 1 / 2\<rfloor> < b + 1" by (simp only: floor_less_iff)
  moreover have "0 \<le> \<lfloor>- x + 1 / 2\<rfloor>" using False by simp
  ultimately have "\<bar>- \<lfloor>- x + 1 / 2\<rfloor>\<bar> \<le> b" by simp
  with False show ?thesis by (simp only: roundf_def if_False)
qed

lemma sint_word_of_int_32:
  assumes "\<bar>r\<bar> \<le> 2 ^ 23"
  shows "sint (word_of_int r :: 32 word) = r"
proof -
  have "- (2 ^ 31) \<le> r" "r < 2 ^ 31" using assms by simp_all
  then have "signed_take_bit 31 r = r" by (rule signed_take_bit_int_eq_self)
  then show ?thesis by (simp add: signed_of_int)
qed

lemma scale_axis_exact:
  assumes a: "a = of_int h / 2" and h: "\<bar>h\<bar> \<le> 1" and v: "\<bar>sint v\<bar> < 2 ^ 24"
    and x: "x = a + of_int (sint v) * DPI_SCALE"
  shows "scale_axis a v = (x - of_int (roundf x), word_of_int (roundf x))"
    and "sint (word_of_int (roundf x) :: 32 word) = roundf x"
    and "\<exists>h1. x - of_int (roundf x) = of_int h1 / 2 \<and> \<bar>h1\<bar> \<le> 1"
proof -
  define s where "s = sint v"
  define r where "r = roundf x"
  have sb: "\<bar>s\<bar> < 2 ^ 24" using v by (simp add: s_def)
  have xh: "x = of_int (h + s) / 2" by (simp add: x a s_def DPI_SCALE_def add_divide_distrib)
  have hs: "\<bar>h + s\<bar> \<le> 2 ^ 24" using h sb by simp
  have p1: "to_double (of_int s) = of_int s"
    using sb by (intro to_double_int) simp
  have p2: "to_double (of_int s * DPI_SCALE) = of_int s / 2"
    using to_double_half [of s] sb by (simp add: DPI_SCALE_def)
  have p3: "to_double a = a"
    unfolding a using h by (intro to_double_half) simp
  have p4: "to_double x = x"
    unfolding xh using hs by (intro to_double_half) simp
  have p5: "to_float x = x"
    unfolding xh using hs by (rule to_float_half)
  have "\<bar>x\<bar> \<le> of_int (2 ^ 23)"
  proof -
    have "\<bar>(of_int (h + s) :: rat)\<bar> \<le> 2 ^ 24"
      using hs by (metis of_int_abs of_int_le_numeral_power_cancel_iff)
    then show ?thesis by (simp add: xh)
  qed
  then have rb: "\<bar>r\<bar> \<le> 2 ^ 23" unfolding r_def by (rule roundf_bounded)
  have p6: "sint (word_of_int r :: 32 word) = r" using rb by (rule sint_word_of_int_32)
  have p7: "to_float (of_int r) = of_int r" using rb by (rule to_float_int)
  define h1 where "h1 = h + s - 2 * r"
  have d: "x - of_int r = of_int h1 / 2" by (simp add: xh h1_def diff_divide_distrib)
  have "\<bar>of_int r - x\<bar> \<le> 1 / 2" unfolding r_def by (rule roundf_near)
  then have "\<bar>(of_int h1 :: rat)\<bar> \<le> 1" using d by (simp add: abs_minus_commute field_simps)
  then have h1b: "\<bar>h1\<bar> \<le> 1" by (metis of_int_abs of_int_le_1_iff)
  have p8: "to_float (x - of_int r) = x - of_int r"
    unfolding d using h1b by (intro to_float_half) simp
  have x2: "a + of_int s / 2 = x" by (simp add: x s_def DPI_SCALE_def)
  have "scale_axis a v = (x - of_int r, word_of_int r)"
    unfolding scale_axis_def Let_def
    by (simp only: s_def [symmetric] p1 p2 p3) (simp only: x2 p4 p5 r_def [symmetric] p6 p7 p8)
  then show "scale_axis a v = (x - of_int (roundf x), word_of_int (roundf x))"
    by (simp only: r_def)
  show "sint (word_of_int (roundf x) :: 32 word) = roundf x" using p6 by (simp only: r_def)
  show "\<exists>h1. x - of_int (roundf x) = of_int h1 / 2 \<and> \<bar>h1\<bar> \<le> 1"
    using d h1b unfolding r_def by blast
qed

lemma accum_ok_half: "accum_ok a \<longleftrightarrow> (\<exists>h. a = of_int h / 2 \<and> \<bar>h\<bar> \<le> 1)"
proof
  assume "accum_ok a"
  then consider "a = of_int (- 1) / 2" | "a = of_int 0 / 2" | "a = of_int 1 / 2"
    by (auto simp: accum_ok_def)
  then show "\<exists>h. a = of_int h / 2 \<and> \<bar>h\<bar> \<le> 1"
  proof cases
    case 1 then show ?thesis by (intro exI [of _ "- 1"]) simp
  next
    case 2 then show ?thesis by (intro exI [of _ 0]) simp
  next
    case 3 then show ?thesis by (intro exI [of _ 1]) simp
  qed
next
  assume "\<exists>h. a = of_int h / 2 \<and> \<bar>h\<bar> \<le> 1"
  then obtain h :: int where a: "a = of_int h / 2" and "\<bar>h\<bar> \<le> 1" by blast
  then have "h = - 1 \<or> h = 0 \<or> h = 1" by auto
  then show "accum_ok a" using a by (auto simp: accum_ok_def)
qed

lemma accum_ok_bound: "accum_ok a \<Longrightarrow> \<bar>a\<bar> \<le> 1 / 2"
  by (auto simp: accum_ok_def)

lemma scale_axis_step:
  assumes "accum_ok a" and "\<bar>sint v\<bar> < 2 ^ 24"
  shows "scale_axis a v =
           (a + of_int (sint v) * DPI_SCALE - of_int (roundf (a + of_int (sint v) * DPI_SCALE)),
            word_of_int (roundf (a + of_int (sint v) * DPI_SCALE)))"
    and "accum_ok (fst (scale_axis a v))"
    and "of_int (sint (snd (scale_axis a v)))
           = of_int (sint v) * DPI_SCALE + a - fst (scale_axis a v)"
proof -
  from assms(1) obtain h :: int where a: "a = of_int h / 2" and h: "\<bar>h\<bar> \<le> 1"
    unfolding accum_ok_half by blast
  note e = scale_axis_exact [OF a h assms(2) refl]
  show "scale_axis a v =
           (a + of_int (sint v) * DPI_SCALE - of_int (roundf (a + of_int (sint v) * DPI_SCALE)),
            word_of_int (roundf (a + of_int (sint v) * DPI_SCALE)))"
    by (rule e(1))
  show "accum_ok (fst (scale_axis a v))"
    unfolding accum_ok_half using e(3) by (simp add: e(1))
  have "of_int (sint (snd (scale_axis a v)))
          = (of_int (roundf (a + of_int (sint v) * DPI_SCALE)) :: rat)"
    by (simp only: e(1) snd_conv e(2))
  also have "\<dots> = of_int (sint v) * DPI_SCALE + a - fst (scale_axis a v)"
    by (simp only: e(1) fst_conv)
  finally show "of_int (sint (snd (scale_axis a v)))
           = of_int (sint v) * DPI_SCALE + a - fst (scale_axis a v)" .
qed

lemma axis_sum_simps:
  "axis_sum c [] = 0"
  "axis_sum c (ev # evs) =
     (if ev_type ev = EV_REL \<and> ev_code ev = c then sint (ev_value ev) else 0) + axis_sum c evs"
  by (simp_all add: axis_sum_def)

lemma rel_axis_distinct: "REL_X \<noteq> REL_Y" "REL_Y \<noteq> REL_X"
  by (simp_all add: REL_X_def REL_Y_def)

lemma rel_event_step:
  assumes ty: "ev_type ev = EV_REL" and v: "\<bar>sint (ev_value ev)\<bar> < 2 ^ 24"
    and ax: "accum_ok (accum_x l)" and ay: "accum_ok (accum_y l)"
  shows "\<exists>l1 ev1. mouse_handle_event ev (l, w) = Inr (l1, write_g502 ev1 w)
           \<and> accum_ok (accum_x l1) \<and> accum_ok (accum_y l1)
           \<and> of_int (axis_sum REL_X [ev1])
               = of_int (axis_sum REL_X [ev]) * DPI_SCALE + accum_x l - accum_x l1
           \<and> of_int (axis_sum REL_Y [ev1])
               = of_int (axis_sum REL_Y [ev]) * DPI_SCALE + accum_y l - accum_y l1"
proof (cases "ev_code ev = REL_X")
  case True
  let ?l1 = "l\<lparr>accum_x := fst (scale_axis (accum_x l) (ev_value ev))\<rparr>"
  let ?e1 = "ev\<lparr>ev_value := snd (scale_axis (accum_x l) (ev_value ev))\<rparr>"
  note st = scale_axis_step [OF ax v]
  have "mouse_handle_event ev (l, w) = Inr (?l1, write_g502 ?e1 w)"
    using handle_rel [OF ty, of l w] True by simp
  moreover have "accum_ok (accum_x ?l1)" "accum_ok (accum_y ?l1)" using st(2) ay by simp_all
  moreover have "of_int (axis_sum REL_X [?e1])
               = of_int (axis_sum REL_X [ev]) * DPI_SCALE + accum_x l - accum_x ?l1"
    using st(3) ty True by (simp add: axis_sum_simps)
  moreover have "of_int (axis_sum REL_Y [?e1])
               = of_int (axis_sum REL_Y [ev]) * DPI_SCALE + accum_y l - accum_y ?l1"
    using ty True by (simp add: axis_sum_simps rel_axis_distinct)
  ultimately show ?thesis by (intro exI [of _ ?l1] exI [of _ ?e1] conjI)
next
  case nx: False
  show ?thesis
  proof (cases "ev_code ev = REL_Y")
    case True
    let ?l1 = "l\<lparr>accum_y := fst (scale_axis (accum_y l) (ev_value ev))\<rparr>"
    let ?e1 = "ev\<lparr>ev_value := snd (scale_axis (accum_y l) (ev_value ev))\<rparr>"
    note st = scale_axis_step [OF ay v]
    have "mouse_handle_event ev (l, w) = Inr (?l1, write_g502 ?e1 w)"
      using handle_rel [OF ty, of l w] True nx by simp
    moreover have "accum_ok (accum_x ?l1)" "accum_ok (accum_y ?l1)" using st(2) ax by simp_all
    moreover have "of_int (axis_sum REL_X [?e1])
               = of_int (axis_sum REL_X [ev]) * DPI_SCALE + accum_x l - accum_x ?l1"
      using ty True by (simp add: axis_sum_simps rel_axis_distinct)
    moreover have "of_int (axis_sum REL_Y [?e1])
               = of_int (axis_sum REL_Y [ev]) * DPI_SCALE + accum_y l - accum_y ?l1"
      using st(3) ty True by (simp add: axis_sum_simps)
    ultimately show ?thesis by (intro exI [of _ ?l1] exI [of _ ?e1] conjI)
  next
    case False
    have "mouse_handle_event ev (l, w) = Inr (l, write_g502 ev w)"
      using handle_rel [OF ty, of l w] nx False by simp
    moreover have "of_int (axis_sum REL_X [ev])
               = of_int (axis_sum REL_X [ev]) * DPI_SCALE + accum_x l - accum_x l"
      "of_int (axis_sum REL_Y [ev])
               = of_int (axis_sum REL_Y [ev]) * DPI_SCALE + accum_y l - accum_y l"
      using nx False by (simp_all add: axis_sum_simps)
    ultimately show ?thesis using ax ay by (intro exI [of _ l] exI [of _ ev] conjI)
  qed
qed

lemma axis_sum_Cons: "axis_sum c (ev # evs) = axis_sum c [ev] + axis_sum c evs"
  by (simp add: axis_sum_simps)

lemma axis_sum_Cons_rat:
  "(of_int (axis_sum c (ev # evs)) :: rat) = of_int (axis_sum c [ev]) + of_int (axis_sum c evs)"
  by (subst axis_sum_Cons) simp

lemma rel_events_run:
  assumes "\<forall>ev \<in> set evs. ev_type ev = EV_REL \<and> \<bar>sint (ev_value ev)\<bar> < 2 ^ 24"
    and "accum_ok (accum_x l)" and "accum_ok (accum_y l)"
  shows "\<exists>l1 out. mouse_handle_events evs (l, w)
                     = Inr (l1, w\<lparr>v_g502_out := v_g502_out w @ out\<rparr>)
           \<and> length out = length evs
           \<and> accum_ok (accum_x l1) \<and> accum_ok (accum_y l1)
           \<and> of_int (axis_sum REL_X out)
               = of_int (axis_sum REL_X evs) * DPI_SCALE + accum_x l - accum_x l1
           \<and> of_int (axis_sum REL_Y out)
               = of_int (axis_sum REL_Y evs) * DPI_SCALE + accum_y l - accum_y l1"
  using assms
proof (induction evs arbitrary: l w)
  case Nil
  have "mouse_handle_events [] (l, w) = Inr (l, w\<lparr>v_g502_out := v_g502_out w @ []\<rparr>)"
    by simp
  moreover have "of_int (axis_sum REL_X []) = of_int (axis_sum REL_X []) * DPI_SCALE + accum_x l - accum_x l"
    "of_int (axis_sum REL_Y []) = of_int (axis_sum REL_Y []) * DPI_SCALE + accum_y l - accum_y l"
    by (simp_all add: axis_sum_simps)
  ultimately show ?case using Nil.prems(2,3)
    by (intro exI [of _ l] exI [of _ "[]"] conjI) simp_all
next
  case (Cons ev evs)
  have ty: "ev_type ev = EV_REL" and v: "\<bar>sint (ev_value ev)\<bar> < 2 ^ 24"
    using Cons.prems(1) by simp_all
  from rel_event_step [OF ty v Cons.prems(2,3), of w] obtain l1 ev1 where
    h: "mouse_handle_event ev (l, w) = Inr (l1, write_g502 ev1 w)"
    and ok1: "accum_ok (accum_x l1)" "accum_ok (accum_y l1)"
    and x1: "of_int (axis_sum REL_X [ev1])
               = of_int (axis_sum REL_X [ev]) * DPI_SCALE + accum_x l - accum_x l1"
    and y1: "of_int (axis_sum REL_Y [ev1])
               = of_int (axis_sum REL_Y [ev]) * DPI_SCALE + accum_y l - accum_y l1"
    by blast
  have rest: "\<forall>ev \<in> set evs. ev_type ev = EV_REL \<and> \<bar>sint (ev_value ev)\<bar> < 2 ^ 24"
    using Cons.prems(1) by simp
  from Cons.IH [OF rest ok1, of "write_g502 ev1 w"] obtain l2 out where
    r: "mouse_handle_events evs (l1, write_g502 ev1 w)
          = Inr (l2, (write_g502 ev1 w)\<lparr>v_g502_out := v_g502_out (write_g502 ev1 w) @ out\<rparr>)"
    and len: "length out = length evs"
    and ok2: "accum_ok (accum_x l2)" "accum_ok (accum_y l2)"
    and x2: "of_int (axis_sum REL_X out)
               = of_int (axis_sum REL_X evs) * DPI_SCALE + accum_x l1 - accum_x l2"
    and y2: "of_int (axis_sum REL_Y out)
               = of_int (axis_sum REL_Y evs) * DPI_SCALE + accum_y l1 - accum_y l2"
    by blast
  have wld: "(write_g502 ev1 w)\<lparr>v_g502_out := v_g502_out (write_g502 ev1 w) @ out\<rparr>
               = w\<lparr>v_g502_out := v_g502_out w @ ev1 # out\<rparr>"
    by (simp add: write_g502_def)
  have run: "mouse_handle_events (ev # evs) (l, w)
               = Inr (l2, w\<lparr>v_g502_out := v_g502_out w @ ev1 # out\<rparr>)"
    using h r wld by simp
  have len2: "length (ev1 # out) = length (ev # evs)" using len by simp
  have xs: "of_int (axis_sum REL_X (ev1 # out))
               = of_int (axis_sum REL_X (ev # evs)) * DPI_SCALE + accum_x l - accum_x l2"
  proof -
    have "(of_int (axis_sum REL_X (ev1 # out)) :: rat)
            = of_int (axis_sum REL_X [ev1]) + of_int (axis_sum REL_X out)"
      by (rule axis_sum_Cons_rat)
    also have "\<dots> = (of_int (axis_sum REL_X [ev]) + of_int (axis_sum REL_X evs)) * DPI_SCALE
                        + accum_x l - accum_x l2"
      by (simp only: x1 x2) (simp add: algebra_simps)
    also have "of_int (axis_sum REL_X [ev]) + of_int (axis_sum REL_X evs)
                 = (of_int (axis_sum REL_X (ev # evs)) :: rat)"
      by (rule axis_sum_Cons_rat [symmetric])
    finally show ?thesis .
  qed
  have ys: "of_int (axis_sum REL_Y (ev1 # out))
               = of_int (axis_sum REL_Y (ev # evs)) * DPI_SCALE + accum_y l - accum_y l2"
  proof -
    have "(of_int (axis_sum REL_Y (ev1 # out)) :: rat)
            = of_int (axis_sum REL_Y [ev1]) + of_int (axis_sum REL_Y out)"
      by (rule axis_sum_Cons_rat)
    also have "\<dots> = (of_int (axis_sum REL_Y [ev]) + of_int (axis_sum REL_Y evs)) * DPI_SCALE
                        + accum_y l - accum_y l2"
      by (simp only: y1 y2) (simp add: algebra_simps)
    also have "of_int (axis_sum REL_Y [ev]) + of_int (axis_sum REL_Y evs)
                 = (of_int (axis_sum REL_Y (ev # evs)) :: rat)"
      by (rule axis_sum_Cons_rat [symmetric])
    finally show ?thesis .
  qed
  from run len2 ok2 xs ys show ?case
    by (intro exI [of _ l2] exI [of _ "ev1 # out"] conjI)
qed

lemma drift_bound:
  assumes e: "(of_int E :: rat) = of_int S * DPI_SCALE + a0 - a1"
    and "accum_ok a0" and "accum_ok a1"
  shows "\<bar>E - roundf (of_int S * DPI_SCALE)\<bar> \<le> 1"
proof -
  let ?T = "of_int S * DPI_SCALE :: rat"
  have n: "\<bar>of_int (roundf ?T) - ?T\<bar> \<le> 1 / 2" by (rule roundf_near)
  have b0: "\<bar>a0\<bar> \<le> 1 / 2" and b1: "\<bar>a1\<bar> \<le> 1 / 2"
    by (rule accum_ok_bound [OF assms(2)], rule accum_ok_bound [OF assms(3)])
  have "(of_int (E - roundf ?T) :: rat) = (?T - of_int (roundf ?T)) + a0 - a1"
    using e by simp
  then have "\<bar>(of_int (E - roundf ?T) :: rat)\<bar> \<le> 3 / 2" using n b0 b1 by linarith
  then have "\<bar>(of_int (E - roundf ?T) :: rat)\<bar> < of_int 2" by simp
  then have "\<bar>E - roundf ?T\<bar> < 2"
    by (simp only: of_int_abs [symmetric] of_int_less_iff)
  then show ?thesis by simp
qed

text \<open>
  Claim C2, as amended. While every raw value is below \<open>2\<^sup>2\<^sup>4\<close> in magnitude the
  \<^verbatim>\<open>float\<close> arithmetic is exact: each \<^verbatim>\<open>REL_X\<close> or \<^verbatim>\<open>REL_Y\<close> event adds
  \<open>value * 0.5\<close> to the accumulator of its axis, emits that sum rounded to the nearest
  integer and keeps the difference. For every run of \<^verbatim>\<open>EV_REL\<close> events with such
  values, started from accumulators the arithmetic can leave behind (zero after a connect),
  one event is written to the virtual mouse for each event read, both accumulators end
  within \<open>\<plusminus>0.5\<close> (so at every instant, the run being arbitrary), the emitted sum on each
  axis is the scaled raw sum plus the accumulator's change, and it differs from the
  rounded scaled raw sum by at most 1.
\<close>

theorem scaled_motion_bounded_drift:
  assumes "\<forall>ev \<in> set evs. ev_type ev = EV_REL \<and> \<bar>sint (ev_value ev)\<bar> < 2 ^ 24"
    and "accum_ok (accum_x l)" and "accum_ok (accum_y l)"
  shows "(\<forall>a v. accum_ok a \<and> \<bar>sint v\<bar> < 2 ^ 24 \<longrightarrow>
            scale_axis a v =
              (a + of_int (sint v) * DPI_SCALE - of_int (roundf (a + of_int (sint v) * DPI_SCALE)),
               word_of_int (roundf (a + of_int (sint v) * DPI_SCALE))))
         \<and> (\<exists>l1 out. mouse_handle_events evs (l, w)
                        = Inr (l1, w\<lparr>v_g502_out := v_g502_out w @ out\<rparr>)
              \<and> length out = length evs
              \<and> \<bar>accum_x l1\<bar> \<le> 1 / 2 \<and> \<bar>accum_y l1\<bar> \<le> 1 / 2
              \<and> of_int (axis_sum REL_X out)
                  = of_int (axis_sum REL_X evs) * DPI_SCALE + accum_x l - accum_x l1
              \<and> of_int (axis_sum REL_Y out)
                  = of_int (axis_sum REL_Y evs) * DPI_SCALE + accum_y l - accum_y l1
              \<and> \<bar>axis_sum REL_X out - roundf (of_int (axis_sum REL_X evs) * DPI_SCALE)\<bar> \<le> 1
              \<and> \<bar>axis_sum REL_Y out - roundf (of_int (axis_sum REL_Y evs) * DPI_SCALE)\<bar> \<le> 1)"
proof -
  have step: "\<forall>a v. accum_ok a \<and> \<bar>sint v\<bar> < 2 ^ 24 \<longrightarrow>
            scale_axis a v =
              (a + of_int (sint v) * DPI_SCALE - of_int (roundf (a + of_int (sint v) * DPI_SCALE)),
               word_of_int (roundf (a + of_int (sint v) * DPI_SCALE)))"
    using scale_axis_step(1) by blast
  from rel_events_run [OF assms, of w] obtain l1 out where
    r: "mouse_handle_events evs (l, w) = Inr (l1, w\<lparr>v_g502_out := v_g502_out w @ out\<rparr>)"
    and len: "length out = length evs"
    and ok: "accum_ok (accum_x l1)" "accum_ok (accum_y l1)"
    and xs: "of_int (axis_sum REL_X out)
               = of_int (axis_sum REL_X evs) * DPI_SCALE + accum_x l - accum_x l1"
    and ys: "of_int (axis_sum REL_Y out)
               = of_int (axis_sum REL_Y evs) * DPI_SCALE + accum_y l - accum_y l1"
    by blast
  have bx: "\<bar>accum_x l1\<bar> \<le> 1 / 2" and bY: "\<bar>accum_y l1\<bar> \<le> 1 / 2"
    by (rule accum_ok_bound [OF ok(1)], rule accum_ok_bound [OF ok(2)])
  have dx: "\<bar>axis_sum REL_X out - roundf (of_int (axis_sum REL_X evs) * DPI_SCALE)\<bar> \<le> 1"
    by (rule drift_bound [OF xs assms(2) ok(1)])
  have dy: "\<bar>axis_sum REL_Y out - roundf (of_int (axis_sum REL_Y evs) * DPI_SCALE)\<bar> \<le> 1"
    by (rule drift_bound [OF ys assms(3) ok(2)])
  have "\<exists>l1 out. mouse_handle_events evs (l, w)
                        = Inr (l1, w\<lparr>v_g502_out := v_g502_out w @ out\<rparr>)
              \<and> length out = length evs
              \<and> \<bar>accum_x l1\<bar> \<le> 1 / 2 \<and> \<bar>accum_y l1\<bar> \<le> 1 / 2
              \<and> of_int (axis_sum REL_X out)
                  = of_int (axis_sum REL_X evs) * DPI_SCALE + accum_x l - accum_x l1
              \<and> of_int (axis_sum REL_Y out)
                  = of_int (axis_sum REL_Y evs) * DPI_SCALE + accum_y l - accum_y l1
              \<and> \<bar>axis_sum REL_X out - roundf (of_int (axis_sum REL_X evs) * DPI_SCALE)\<bar> \<le> 1
              \<and> \<bar>axis_sum REL_Y out - roundf (of_int (axis_sum REL_Y evs) * DPI_SCALE)\<bar> \<le> 1"
    using r len bx bY xs ys dx dy by (intro exI [of _ l1] exI [of _ out] conjI)
  with step show ?thesis by (rule conjI)
qed

lemma to_float_large: "to_float (16777217 / 2) = 8388608"
  by code_simp

lemma roundf_large: "roundf 8388608 = 8388608"
  by code_simp

lemma roundf_total: "roundf (50331651 / 2) = 25165826"
  by code_simp

lemma scale_axis_large: "scale_axis 0 16777217 = (0, 8388608)"
proof -
  have s: "sint (16777217 :: 32 word) = 16777217" by simp
  have p1: "to_double (of_int 16777217) = of_int 16777217"
    by (rule to_double_int) simp
  have p2: "to_double (of_int 16777217 * DPI_SCALE) = of_int 16777217 / 2"
    using to_double_half [of 16777217] by (simp add: DPI_SCALE_def)
  have p3: "to_double 0 = 0" using to_double_half [of 0] by simp
  have p4: "to_double (0 + of_int 16777217 / 2) = of_int 16777217 / 2"
    using to_double_half [of 16777217] by simp
  have p5: "to_float (of_int 16777217 / 2) = 8388608" using to_float_large by simp
  have p6: "(word_of_int (roundf 8388608) :: 32 word) = 8388608" by (simp add: roundf_large)
  have s2: "sint (8388608 :: 32 word) = 8388608" by simp
  have p7: "to_float (of_int 8388608) = of_int 8388608"
    by (rule to_float_int) simp
  have p8: "to_float 0 = 0" using to_float_half [of 0] by simp
  show ?thesis
    unfolding scale_axis_def Let_def
    by (simp only: s p1 p2 p3 p4 p5 p6 s2 p7) (simp add: p8)
qed

text \<open>
  Claim C2 as stated fails on large values. From accumulators at zero, three \<^verbatim>\<open>REL_X\<close>
  events of value 16777217 each are worth 8388608.5: the \<^verbatim>\<open>float\<close> accumulator cannot
  hold the half, each event emits 8388608, and the emitted sum 25165824 is 2 away from the
  rounded scaled raw sum 25165826.
\<close>

theorem scaled_motion_drift_counterexample:
  "mouse_handle_events
     [zero_event\<lparr>ev_type := EV_REL, ev_code := REL_X, ev_value := 16777217\<rparr>,
      zero_event\<lparr>ev_type := EV_REL, ev_code := REL_X, ev_value := 16777217\<rparr>,
      zero_event\<lparr>ev_type := EV_REL, ev_code := REL_X, ev_value := 16777217\<rparr>]
     (\<lparr>mouse_fd = 3, accum_x = 0, accum_y = 0, consecutive_failures = 0\<rparr>, initial_world)
   = Inr (\<lparr>mouse_fd = 3, accum_x = 0, accum_y = 0, consecutive_failures = 0\<rparr>,
          initial_world\<lparr>v_g502_out :=
            [zero_event\<lparr>ev_type := EV_REL, ev_code := REL_X, ev_value := 8388608\<rparr>,
             zero_event\<lparr>ev_type := EV_REL, ev_code := REL_X, ev_value := 8388608\<rparr>,
             zero_event\<lparr>ev_type := EV_REL, ev_code := REL_X, ev_value := 8388608\<rparr>]\<rparr>)
   \<and> axis_sum REL_X
        [zero_event\<lparr>ev_type := EV_REL, ev_code := REL_X, ev_value := 8388608\<rparr>,
         zero_event\<lparr>ev_type := EV_REL, ev_code := REL_X, ev_value := 8388608\<rparr>,
         zero_event\<lparr>ev_type := EV_REL, ev_code := REL_X, ev_value := 8388608\<rparr>] = 25165824
   \<and> roundf (of_int (axis_sum REL_X
        [zero_event\<lparr>ev_type := EV_REL, ev_code := REL_X, ev_value := 16777217\<rparr>,
         zero_event\<lparr>ev_type := EV_REL, ev_code := REL_X, ev_value := 16777217\<rparr>,
         zero_event\<lparr>ev_type := EV_REL, ev_code := REL_X, ev_value := 16777217\<rparr>]) * DPI_SCALE)
       = 25165826
   \<and> \<not> \<bar>axis_sum REL_X
        [zero_event\<lparr>ev_type := EV_REL, ev_code := REL_X, ev_value := 8388608\<rparr>,
         zero_event\<lparr>ev_type := EV_REL, ev_code := REL_X, ev_value := 8388608\<rparr>,
         zero_event\<lparr>ev_type := EV_REL, ev_code := REL_X, ev_value := 8388608\<rparr>]
       - roundf (of_int (axis_sum REL_X
        [zero_event\<lparr>ev_type := EV_REL, ev_code := REL_X, ev_value := 16777217\<rparr>,
         zero_event\<lparr>ev_type := EV_REL, ev_code := REL_X, ev_value := 16777217\<rparr>,
         zero_event\<lparr>ev_type := EV_REL, ev_code := REL_X, ev_value := 16777217\<rparr>]) * DPI_SCALE)\<bar> \<le> 1"
proof -
  let ?e = "zero_event\<lparr>ev_type := EV_REL, ev_code := REL_X, ev_value := 16777217\<rparr>"
  let ?e1 = "zero_event\<lparr>ev_type := EV_REL, ev_code := REL_X, ev_value := 8388608\<rparr>"
  let ?l = "\<lparr>mouse_fd = 3, accum_x = 0, accum_y = 0, consecutive_failures = 0\<rparr>"
  have ty: "ev_type ?e = EV_REL" by simp
  have one: "mouse_handle_event ?e (?l, w) = Inr (?l, write_g502 ?e1 w)" for w
    using handle_rel [OF ty, of ?l w] by (simp add: scale_axis_large)
  have run: "mouse_handle_events [?e, ?e, ?e] (?l, initial_world)
               = Inr (?l, initial_world\<lparr>v_g502_out := [?e1, ?e1, ?e1]\<rparr>)"
    by (simp add: one) (simp add: write_g502_def initial_world_def)
  have out: "axis_sum REL_X [?e1, ?e1, ?e1] = 25165824"
    by (simp add: axis_sum_simps)
  have raw: "axis_sum REL_X [?e, ?e, ?e] = 50331651"
    by (simp add: axis_sum_simps)
  have rnd: "roundf (of_int (axis_sum REL_X [?e, ?e, ?e]) * DPI_SCALE) = 25165826"
    using roundf_total by (simp add: raw DPI_SCALE_def)
  have far: "\<not> \<bar>axis_sum REL_X [?e1, ?e1, ?e1]
                - roundf (of_int (axis_sum REL_X [?e, ?e, ?e]) * DPI_SCALE)\<bar> \<le> 1"
    unfolding out rnd by simp
  show ?thesis by (rule conjI [OF run conjI [OF out conjI [OF rnd far]]])
qed

theorem scaled_motion_bounded_drift_witness:
  "accum_ok 0
   \<and> (\<exists>l1 out. mouse_handle_events
          [zero_event\<lparr>ev_type := EV_REL, ev_code := REL_X, ev_value := 3\<rparr>,
           zero_event\<lparr>ev_type := EV_REL, ev_code := REL_Y, ev_value := - 5\<rparr>,
           zero_event\<lparr>ev_type := EV_REL, ev_code := REL_X, ev_value := 1\<rparr>,
           zero_event\<lparr>ev_type := EV_REL, ev_code := 8, ev_value := 1\<rparr>]
          (\<lparr>mouse_fd = 3, accum_x = 0, accum_y = 0, consecutive_failures = 0\<rparr>, initial_world)
        = Inr (l1, initial_world\<lparr>v_g502_out := out\<rparr>)
        \<and> length out = 4
        \<and> \<bar>accum_x l1\<bar> \<le> 1 / 2 \<and> \<bar>accum_y l1\<bar> \<le> 1 / 2
        \<and> \<bar>axis_sum REL_X out - roundf (of_int 4 * DPI_SCALE)\<bar> \<le> 1
        \<and> \<bar>axis_sum REL_Y out - roundf (of_int (- 5) * DPI_SCALE)\<bar> \<le> 1)"
proof -
  let ?evs = "[zero_event\<lparr>ev_type := EV_REL, ev_code := REL_X, ev_value := 3\<rparr>,
           zero_event\<lparr>ev_type := EV_REL, ev_code := REL_Y, ev_value := - 5\<rparr>,
           zero_event\<lparr>ev_type := EV_REL, ev_code := REL_X, ev_value := 1\<rparr>,
           zero_event\<lparr>ev_type := EV_REL, ev_code := 8, ev_value := 1\<rparr>]"
  let ?l = "\<lparr>mouse_fd = 3, accum_x = 0, accum_y = 0, consecutive_failures = 0\<rparr>"
  have ok0: "accum_ok 0" by (simp add: accum_ok_def)
  have h1: "\<forall>ev \<in> set ?evs. ev_type ev = EV_REL \<and> \<bar>sint (ev_value ev)\<bar> < 2 ^ 24"
    by simp
  have h2: "accum_ok (accum_x ?l)" and h3: "accum_ok (accum_y ?l)" using ok0 by simp_all
  have sx: "axis_sum REL_X ?evs = 4"
    by (simp add: axis_sum_simps rel_axis_distinct) (simp add: REL_X_def)
  have sy: "axis_sum REL_Y ?evs = - 5"
    by (simp add: axis_sum_simps rel_axis_distinct) (simp add: REL_Y_def)
  from scaled_motion_bounded_drift [OF h1 h2 h3, of initial_world] obtain l1 out where
    r: "mouse_handle_events ?evs (?l, initial_world)
          = Inr (l1, initial_world\<lparr>v_g502_out := v_g502_out initial_world @ out\<rparr>)"
    and len: "length out = length ?evs"
    and b: "\<bar>accum_x l1\<bar> \<le> 1 / 2" "\<bar>accum_y l1\<bar> \<le> 1 / 2"
    and dx: "\<bar>axis_sum REL_X out - roundf (of_int (axis_sum REL_X ?evs) * DPI_SCALE)\<bar> \<le> 1"
    and dy: "\<bar>axis_sum REL_Y out - roundf (of_int (axis_sum REL_Y ?evs) * DPI_SCALE)\<bar> \<le> 1"
    by blast
  have r': "mouse_handle_events ?evs (?l, initial_world)
          = Inr (l1, initial_world\<lparr>v_g502_out := out\<rparr>)"
    using r by (simp add: initial_world_def)
  have len': "length out = 4" using len by simp
  have dx': "\<bar>axis_sum REL_X out - roundf (of_int 4 * DPI_SCALE)\<bar> \<le> 1"
    using dx by (simp only: sx)
  have dy': "\<bar>axis_sum REL_Y out - roundf (of_int (- 5) * DPI_SCALE)\<bar> \<le> 1"
    using dy by (simp only: sy)
  have "\<exists>l1 out. mouse_handle_events ?evs (?l, initial_world)
        = Inr (l1, initial_world\<lparr>v_g502_out := out\<rparr>)
        \<and> length out = 4
        \<and> \<bar>accum_x l1\<bar> \<le> 1 / 2 \<and> \<bar>accum_y l1\<bar> \<le> 1 / 2
        \<and> \<bar>axis_sum REL_X out - roundf (of_int 4 * DPI_SCALE)\<bar> \<le> 1
        \<and> \<bar>axis_sum REL_Y out - roundf (of_int (- 5) * DPI_SCALE)\<bar> \<le> 1"
    using r' len' b dx' dy' by (intro exI [of _ l1] exI [of _ out] conjI)
  with ok0 show ?thesis by (rule conjI)
qed

end
